(* ===== verification/Prelude.thy ===== *)
theory Prelude
  imports Complex_Main "HOL-Library.Word" "HOL-Library.AList"
begin

text \<open>
  Shared vocabulary of the development.

  \<^item> Machine integers: \<open>u8\<close>, \<open>u32\<close>, \<open>u64\<close> are words, so \<open>+\<close>, \<open>-\<close> and \<open>*\<close> wrap as the
    release build's arithmetic does; Rust's \<open>saturating_\<close> operations are written out here.
    \<open>usize\<close> values that are lengths or limits of in-memory collections are natural numbers.
  \<^item> Time: an \<open>Instant\<close> and a \<open>Duration\<close> are natural numbers of nanoseconds.
    \<open>Instant::duration_since\<close> saturates at zero, as \<open>-\<close> on natural numbers does.
    Every reading of the clock is an argument of the operation that makes it.
  \<^item> \<open>HashMap\<close> and \<open>DashMap\<close> are association lists with distinct keys. The order of the
    list is the (unspecified) order in which the code iterates over the map; theorems quantify
    over all lists, hence over all orders.
  \<^item> The locales \<open>hash_store\<close> (the contract of the maps) and \<open>invariant_machine\<close>
    (a component driven by a sequence of calls) with their interpretations.
\<close>

section \<open>Machine types\<close>

type_synonym u8 = "8 word"
type_synonym u32 = "32 word"
type_synonym u64 = "64 word"
type_synonym usize = nat
type_synonym bytes = "8 word list"
type_synonym instant = nat
type_synonym duration = nat
type_synonym system_time = nat

named_theorems machine_simps \<open>unsigned readings of the saturating operations\<close>
named_theorems hm_simps \<open>rewrite rules of the map operations\<close>

definition duration_from_millis :: "nat \<Rightarrow> duration" where
  "duration_from_millis n = n * 1000000"

definition duration_from_secs :: "nat \<Rightarrow> duration" where
  "duration_from_secs n = n * 1000000000"

definition as_secs :: "duration \<Rightarrow> nat" where
  "as_secs d = d div 1000000000"

definition as_millis :: "duration \<Rightarrow> nat" where
  "as_millis d = d div 1000000"

definition duration_since :: "instant \<Rightarrow> instant \<Rightarrow> duration" where
  "duration_since now earlier = now - earlier"

lemmas duration_simps =
  duration_from_millis_def duration_from_secs_def as_secs_def as_millis_def duration_since_def

lemma as_secs_from_secs [simp]: "as_secs (duration_from_secs n) = n"
  by (simp add: as_secs_def duration_from_secs_def)

lemma as_millis_from_millis [simp]: "as_millis (duration_from_millis n) = n"
  by (simp add: as_millis_def duration_from_millis_def)

section \<open>Saturating arithmetic\<close>

definition sat_of_nat :: "nat \<Rightarrow> 'a::len word" where
  "sat_of_nat n = (if n < 2 ^ LENGTH('a) then word_of_nat n else - 1)"

definition sat_add :: "'a::len word \<Rightarrow> 'a word \<Rightarrow> 'a word" where
  "sat_add a b = sat_of_nat (unat a + unat b)"

definition sat_sub :: "'a::len word \<Rightarrow> 'a word \<Rightarrow> 'a word" where
  "sat_sub a b = sat_of_nat (unat a - unat b)"

definition sat_mul :: "'a::len word \<Rightarrow> 'a word \<Rightarrow> 'a word" where
  "sat_mul a b = sat_of_nat (unat a * unat b)"

definition sat_pow :: "'a::len word \<Rightarrow> nat \<Rightarrow> 'a word" where
  "sat_pow a n = sat_of_nat (unat a ^ n)"

lemma unat_max: "unat (- 1 :: 'a::len word) = 2 ^ LENGTH('a) - 1"
  by (simp add: unsigned_minus_1_eq_mask mask_eq_exp_minus_1)

lemma unat_sat_of_nat [machine_simps]:
  "unat (sat_of_nat n :: 'a::len word) = min n (2 ^ LENGTH('a) - 1)"
  by (auto simp: sat_of_nat_def unat_max unat_of_nat take_bit_eq_mod min_def)

lemma unat_sat_add [machine_simps]:
  "unat (sat_add a b :: 'a::len word) = min (unat a + unat b) (2 ^ LENGTH('a) - 1)"
  by (simp add: sat_add_def unat_sat_of_nat)

lemma unat_less_pow: "unat (a :: 'a::len word) < 2 ^ LENGTH('a)"
  by (rule unsigned_less)

lemma unat_sat_sub [machine_simps]:
  "unat (sat_sub a b :: 'a::len word) = unat a - unat b"
proof -
  have "unat a - unat b \<le> 2 ^ LENGTH('a) - 1"
    using unat_less_pow [of a] by linarith
  then show ?thesis by (simp add: sat_sub_def unat_sat_of_nat)
qed

lemma unat_sat_mul [machine_simps]:
  "unat (sat_mul a b :: 'a::len word) = min (unat a * unat b) (2 ^ LENGTH('a) - 1)"
  by (simp add: sat_mul_def unat_sat_of_nat)

lemma unat_sat_pow [machine_simps]:
  "unat (sat_pow a n :: 'a::len word) = min (unat a ^ n) (2 ^ LENGTH('a) - 1)"
  by (simp add: sat_pow_def unat_sat_of_nat)

lemma unat_min_word [machine_simps]: "unat (min a b :: 'a::len word) = min (unat a) (unat b)"
  by (simp add: min_def word_le_nat_alt)

lemma unat_max_word [machine_simps]: "unat (max a b :: 'a::len word) = max (unat a) (unat b)"
  by (simp add: max_def word_le_nat_alt)

lemma unat_Suc_no_wrap:
  "unat (a :: 'a::len word) < 2 ^ LENGTH('a) - 1 \<Longrightarrow> unat (a + 1) = Suc (unat a)"
  by (metis Suc_eq_plus1 less_diff_conv unat_1 unat_add_lem)

lemma unat_of_nat_small:
  "n < 2 ^ LENGTH('a) \<Longrightarrow> unat (word_of_nat n :: 'a::len word) = n"
  by (simp add: unat_of_nat take_bit_nat_eq_self)

lemma unat_of_nat_le: "unat (word_of_nat n :: 'a::len word) \<le> n"
  by (simp add: unat_of_nat)

section \<open>Decimal rendering\<close>

fun show_nat :: "nat \<Rightarrow> string" where
  "show_nat n =
     (if n < 10 then [char_of (48 + n)] else show_nat (n div 10) @ [char_of (48 + n mod 10)])"

declare show_nat.simps [simp del]

lemma show_digit_eq_iff:
  "m < 10 \<Longrightarrow> n < 10 \<Longrightarrow> (char_of (48 + m) :: char) = char_of (48 + n) \<longleftrightarrow> m = (n :: nat)"
  by simp

lemma show_nat_small: "n < 10 \<Longrightarrow> show_nat n = [char_of (48 + n)]"
  and show_nat_large: "10 \<le> n \<Longrightarrow> show_nat n = show_nat (n div 10) @ [char_of (48 + n mod 10)]"
  by (subst show_nat.simps; simp)+

lemma show_nat_not_Nil: "show_nat n \<noteq> []"
  by (subst show_nat.simps) simp

lemma show_nat_inject: "show_nat m = show_nat n \<longleftrightarrow> m = n"
proof
  show "show_nat m = show_nat n \<Longrightarrow> m = n"
  proof (induction m arbitrary: n rule: show_nat.induct)
    case (1 m)
    consider "m < 10" "n < 10" | "m < 10 \<longleftrightarrow> 10 \<le> n" | "10 \<le> m" "10 \<le> n"
      by linarith
    then show ?case
    proof cases
      case 1
      then show ?thesis using "1.prems" by (simp add: show_nat_small)
    next
      case 2
      then show ?thesis
        using "1.prems" show_nat_not_Nil [of "m div 10"] show_nat_not_Nil [of "n div 10"]
        by (cases "m < 10") (auto simp: show_nat_small show_nat_large)
    next
      case 3
      then have "show_nat (m div 10) = show_nat (n div 10)"
        and "(char_of (48 + m mod 10) :: char) = char_of (48 + n mod 10)"
        using "1.prems" by (simp_all add: show_nat_large del: char_of_quasi_inj)
      moreover have "m div 10 = n div 10"
        using "1.IH" [of "n div 10"] 3 calculation(1) by simp
      moreover have "m mod 10 = n mod 10"
        using calculation(2) show_digit_eq_iff [of "m mod 10" "n mod 10"] by simp
      ultimately show ?thesis
        by (metis div_mult_mod_eq)
    qed
  qed
qed simp

section \<open>Hash maps\<close>

type_synonym ('k, 'v) hmap = "('k \<times> 'v) list"

abbreviation (input) hm_wf :: "('k, 'v) hmap \<Rightarrow> bool" where
  "hm_wf m \<equiv> distinct (map fst m)"

abbreviation (input) hm_get :: "('k, 'v) hmap \<Rightarrow> 'k \<Rightarrow> 'v option" where
  "hm_get \<equiv> map_of"

abbreviation (input) hm_put :: "'k \<Rightarrow> 'v \<Rightarrow> ('k, 'v) hmap \<Rightarrow> ('k, 'v) hmap" where
  "hm_put \<equiv> AList.update"

abbreviation (input) hm_del :: "'k \<Rightarrow> ('k, 'v) hmap \<Rightarrow> ('k, 'v) hmap" where
  "hm_del \<equiv> AList.delete"

abbreviation (input) hm_modify :: "'k \<Rightarrow> ('v \<Rightarrow> 'v) \<Rightarrow> ('k, 'v) hmap \<Rightarrow> ('k, 'v) hmap" where
  "hm_modify \<equiv> AList.map_entry"

abbreviation (input) hm_retain :: "('k \<Rightarrow> 'v \<Rightarrow> bool) \<Rightarrow> ('k, 'v) hmap \<Rightarrow> ('k, 'v) hmap" where
  "hm_retain P m \<equiv> filter (\<lambda>(k, v). P k v) m"

abbreviation (input) hm_size :: "('k, 'v) hmap \<Rightarrow> nat" where
  "hm_size \<equiv> length"

abbreviation (input) hm_has :: "('k, 'v) hmap \<Rightarrow> 'k \<Rightarrow> bool" where
  "hm_has m k \<equiv> hm_get m k \<noteq> None"

text \<open>\<open>entry(k).or_insert(v)\<close>: the map with the entry present, and its value.\<close>

definition hm_entry :: "'k \<Rightarrow> 'v \<Rightarrow> ('k, 'v) hmap \<Rightarrow> 'v" where
  "hm_entry k v m = (case hm_get m k of None \<Rightarrow> v | Some w \<Rightarrow> w)"

lemma hm_get_put [hm_simps]: "hm_get (hm_put k v m) k' = (if k' = k then Some v else hm_get m k')"
  by (simp add: update_conv')

lemma hm_get_del [hm_simps]: "hm_get (hm_del k m) k' = (if k' = k then None else hm_get m k')"
  by (simp add: delete_conv')

lemma hm_get_modify [hm_simps]:
  "hm_get (hm_modify k f m) k' = (if k' = k then map_option f (hm_get m k) else hm_get m k')"
  by (auto simp: map_of_map_entry split: option.splits)

lemma hm_size_modify [hm_simps]: "hm_size (hm_modify k f m) = hm_size m"
  by (induction m) auto

lemma hm_keys_modify [hm_simps]: "map fst (hm_modify k f m) = map fst m"
  by (induction m) auto

lemma hm_wf_put [hm_simps]: "hm_wf m \<Longrightarrow> hm_wf (hm_put k v m)"
  by (rule distinct_update)

lemma hm_wf_del [hm_simps]: "hm_wf m \<Longrightarrow> hm_wf (hm_del k m)"
  by (rule distinct_delete)

lemma hm_wf_filter [hm_simps]: "hm_wf m \<Longrightarrow> hm_wf (filter P m)"
  by (induction m) auto

lemma hm_get_None: "hm_get m k = None \<longleftrightarrow> k \<notin> fst ` set m"
  by (rule map_of_eq_None_iff)

lemma hm_size_put [hm_simps]:
  "hm_size (hm_put k v m) = (if hm_get m k = None then Suc (hm_size m) else hm_size m)"
  by (induction m) auto

lemma hm_size_del [hm_simps]:
  "hm_wf m \<Longrightarrow> hm_size (hm_del k m) = (if hm_get m k = None then hm_size m else hm_size m - 1)"
proof (induction m)
  case Nil
  then show ?case by simp
next
  case (Cons p m)
  then show ?case
    by (cases "m = []") (auto simp: hm_get_None image_iff split: if_splits)
qed

lemma hm_get_retain [hm_simps]:
  "hm_wf m \<Longrightarrow> hm_get (filter (\<lambda>(k, v). P k v) m) k =
     (case hm_get m k of None \<Rightarrow> None | Some v \<Rightarrow> if P k v then Some v else None)"
  by (induction m) (auto simp: hm_get_None image_iff split: option.splits if_splits)

lemma hm_retain_idem [hm_simps]:
  "hm_retain P (filter (\<lambda>(k, v). P k v) m) = filter (\<lambda>(k, v). P k v) m"
  by (rule filter_True) auto

text \<open>The sum of a measure over the values of a map.\<close>

definition hm_sum :: "('v \<Rightarrow> nat) \<Rightarrow> ('k, 'v) hmap \<Rightarrow> nat" where
  "hm_sum f m = sum_list (map (\<lambda>(_, v). f v) m)"

lemma hm_sum_Cons [simp]: "hm_sum f [] = 0" "hm_sum f ((k, v) # m) = f v + hm_sum f m"
  by (simp_all add: hm_sum_def)

lemma hm_sum_put_new: "hm_get m k = None \<Longrightarrow> hm_sum f (hm_put k v m) = hm_sum f m + f v"
  by (induction m) (auto split: if_splits)

lemma hm_sum_del:
  "hm_wf m \<Longrightarrow> hm_get m k = Some v \<Longrightarrow> hm_sum f (hm_del k m) + f v = hm_sum f m"
proof (induction m)
  case Nil
  then show ?case by simp
next
  case (Cons p m)
  then show ?case
    by (cases p) (auto simp: hm_get_None delete_id split: if_splits)
qed

lemma hm_sum_le: "\<forall>v. f v \<le> c \<Longrightarrow> hm_sum f m \<le> c * hm_size m"
  by (induction m) (auto simp: add_mono)

lemma hm_get_Some_in: "hm_get m k = Some v \<Longrightarrow> (k, v) \<in> set m"
  by (rule map_of_SomeD)

lemma hm_in_get: "hm_wf m \<Longrightarrow> (k, v) \<in> set m \<longleftrightarrow> hm_get m k = Some v"
  by (auto dest: map_of_SomeD)

text \<open>The contract of a map that the components rely on.\<close>

locale hash_store =
  fixes get :: "'m \<Rightarrow> 'k \<Rightarrow> 'v option"
    and put :: "'k \<Rightarrow> 'v \<Rightarrow> 'm \<Rightarrow> 'm"
    and del :: "'k \<Rightarrow> 'm \<Rightarrow> 'm"
    and count :: "'m \<Rightarrow> nat"
    and wf_store :: "'m \<Rightarrow> bool"
  assumes get_put: "get (put k v m) k' = (if k' = k then Some v else get m k')"
    and get_del: "get (del k m) k' = (if k' = k then None else get m k')"
    and wf_put: "wf_store m \<Longrightarrow> wf_store (put k v m)"
    and wf_del: "wf_store m \<Longrightarrow> wf_store (del k m)"
    and count_put: "wf_store m \<Longrightarrow>
          count (put k v m) = (if get m k = None then Suc (count m) else count m)"
    and count_del: "wf_store m \<Longrightarrow>
          count (del k m) = (if get m k = None then count m else count m - 1)"
begin

lemma put_within: "wf_store m \<Longrightarrow> count m < cap \<Longrightarrow> count (put k v m) \<le> cap"
  by (simp add: count_put)

lemma del_within: "wf_store m \<Longrightarrow> count m \<le> cap \<Longrightarrow> count (del k m) \<le> cap"
  by (auto simp: count_del)

lemma replace_count:
  assumes "wf_store m" and "get m k = Some w"
  shows "0 < count m \<Longrightarrow> count (put k v (del k m)) = count m"
  using assms by (simp add: count_put count_del wf_del get_del)

lemma replace_within:
  assumes "wf_store m" and "count m \<le> cap" and "get m k = Some w" and "0 < count m"
  shows "count (put k v (del k m)) \<le> cap"
  using replace_count [OF assms(1,3,4)] assms(2) by simp

lemma foldl_del_get:
  "get (foldl (\<lambda>m k. del k m) m ks) k = (if k \<in> set ks then None else get m k)"
  by (induction ks arbitrary: m) (auto simp: get_del)

lemma foldl_del_wf: "wf_store m \<Longrightarrow> wf_store (foldl (\<lambda>m k. del k m) m ks)"
  by (induction ks arbitrary: m) (auto simp: wf_del)

lemma foldl_del_count:
  assumes "wf_store m" and "distinct ks" and "\<forall>k\<in>set ks. get m k \<noteq> None"
  shows "count (foldl (\<lambda>m k. del k m) m ks) = count m - length ks"
  using assms
proof (induction ks arbitrary: m)
  case Nil
  then show ?case by simp
next
  case (Cons k ks)
  then have "\<forall>k'\<in>set ks. get (del k m) k' \<noteq> None"
    by (auto simp: get_del)
  with Cons show ?case by (auto simp: wf_del count_del)
qed

end

interpretation hm: hash_store hm_get hm_put hm_del hm_size hm_wf
  by unfold_locales (simp_all add: hm_simps del: AList.update.simps)

lemmas hm_within = hm.put_within hm.del_within hm.replace_within

section \<open>Components driven by a sequence of calls\<close>

locale invariant_machine =
  fixes step :: "'op \<Rightarrow> 's \<Rightarrow> 's"
    and inv :: "'s \<Rightarrow> bool"
  assumes step_inv: "inv s \<Longrightarrow> inv (step op s)"
begin

lemma run_inv: "inv s \<Longrightarrow> inv (fold step ops s)"
  by (induction ops arbitrary: s) (auto intro: step_inv)

lemma run_inv_append: "inv s \<Longrightarrow> inv (fold step (ops @ ops') s)"
  by (rule run_inv)

end

end
