(* ===== verification/Float64.thy ===== *)
theory Float64
  imports Prelude "HOL-Library.Log_Nat"
begin

text \<open>
  Rust's \<open>f64\<close> as the code uses it: non-negative values far away from the limits of the
  exponent range. A value is the rational number it denotes; every operation computes the exact
  rational result and rounds it with \<open>rnd64\<close> to 53 significant bits, ties to even, as
  IEEE 754 binary64 does. Infinities, NaN and subnormal numbers do not occur: the arguments are
  64-bit counters and quotients of those, and each division is guarded in the code.
\<close>

type_synonym f64 = rat

section \<open>Rounding\<close>

text \<open>The exponent of a positive number: \<open>2 powi ilog2 x \<le> x < 2 powi (ilog2 x + 1)\<close>.\<close>

definition ilog2 :: "rat \<Rightarrow> int" where
  "ilog2 x =
     (let (a, b) = quotient_of x; e = bitlen a - bitlen b
      in if 2 powi e \<le> x then e else e - 1)"

definition rne :: "rat \<Rightarrow> int" where
  "rne y =
     (let n = \<lfloor>y\<rfloor>; d = y - of_int n
      in if d < 1 / 2 then n else if 1 / 2 < d then n + 1 else if even n then n else n + 1)"

definition rnd64 :: "rat \<Rightarrow> f64" where
  "rnd64 x =
     (if x \<le> 0 then 0
      else let u = 2 powi (ilog2 x - 52) in of_int (rne (x / u)) * u)"

section \<open>Operations\<close>

definition f64_of_nat :: "nat \<Rightarrow> f64" where
  "f64_of_nat n = rnd64 (of_nat n)"

definition f64_of_u64 :: "u64 \<Rightarrow> f64" where
  "f64_of_u64 w = f64_of_nat (unat w)"

definition f64_add :: "f64 \<Rightarrow> f64 \<Rightarrow> f64" where
  "f64_add a b = rnd64 (a + b)"

definition f64_mul :: "f64 \<Rightarrow> f64 \<Rightarrow> f64" where
  "f64_mul a b = rnd64 (a * b)"

definition f64_div :: "f64 \<Rightarrow> f64 \<Rightarrow> f64" where
  "f64_div a b = rnd64 (a / b)"

text \<open>The cast \<open>x as u64\<close> truncates and saturates.\<close>

definition f64_to_u64 :: "f64 \<Rightarrow> u64" where
  "f64_to_u64 x = sat_of_nat (nat \<lfloor>x\<rfloor>)"

section \<open>Facts about rounding\<close>

lemma bitlen_pos_bounds:
  assumes "0 < a"
  shows "2 powi (bitlen a - 1) \<le> (of_int a :: rat)" and "(of_int a :: rat) < 2 powi bitlen a"
proof -
  have b: "2 ^ nat (bitlen a - 1) \<le> a" "a < 2 ^ nat (bitlen a)"
    using bitlen_bounds [OF assms] by auto
  have pos: "1 \<le> bitlen a"
    using assms by (simp add: bitlen_alt_def)
  have "(2 powi (bitlen a - 1) :: rat) = of_int (2 ^ nat (bitlen a - 1))"
    using pos by (simp add: power_int_def)
  also have "\<dots> \<le> of_int a"
    using b(1) by (simp only: of_int_le_iff)
  finally show "2 powi (bitlen a - 1) \<le> (of_int a :: rat)" .
  have "(of_int a :: rat) < of_int (2 ^ nat (bitlen a))"
    using b(2) by (simp only: of_int_less_iff)
  also have "\<dots> = 2 powi bitlen a"
    using pos by (simp add: power_int_def)
  finally show "(of_int a :: rat) < 2 powi bitlen a" .
qed

lemma ilog2_bounds:
  assumes "0 < x"
  shows "2 powi ilog2 x \<le> x" and "x < 2 powi (ilog2 x + 1)"
proof -
  obtain a b where ab: "quotient_of x = (a, b)" by fastforce
  have bpos: "0 < b" using ab by (rule quotient_of_denom_pos)
  have xab: "x = of_int a / of_int b" using ab by (rule quotient_of_div)
  have apos: "0 < a" using assms bpos xab by (simp add: zero_less_divide_iff)
  let ?A = "bitlen a" and ?B = "bitlen b"
  have hi: "x < 2 powi (?A - ?B + 1)"
  proof -
    have "x < 2 powi ?A / (2 powi (?B - 1) :: rat)"
      unfolding xab using bitlen_pos_bounds [OF apos] bitlen_pos_bounds [OF bpos]
      using apos by (intro frac_less) auto
    also have "\<dots> = 2 powi (?A - ?B + 1)"
      by (simp add: power_int_diff power_int_add)
    finally show ?thesis .
  qed
  have lo: "2 powi (?A - ?B - 1) \<le> x"
  proof -
    have "2 powi (?A - ?B - 1) = (2 powi (?A - 1) / 2 powi ?B :: rat)"
      by (simp add: power_int_diff)
    also have "\<dots> \<le> x"
      unfolding xab using bitlen_pos_bounds [OF apos] bitlen_pos_bounds [OF bpos] bpos apos
      by (intro frac_le) auto
    finally show ?thesis .
  qed
  show "2 powi ilog2 x \<le> x" and "x < 2 powi (ilog2 x + 1)"
    using hi lo by (auto simp: ilog2_def ab Let_def)
qed

lemma powi2_less: "(2 powi i :: rat) < 2 powi j \<longleftrightarrow> i < j"
  by (meson linorder_not_less one_le_numeral one_less_numeral_iff power_int_increasing
      power_int_strict_increasing semiring_norm(76))

lemma powi2_le: "(2 powi i :: rat) \<le> 2 powi j \<longleftrightarrow> i \<le> j"
  using powi2_less [of j i] by (simp add: linorder_not_less flip: linorder_not_less)

lemma ilog2_unique:
  assumes "2 powi e \<le> x" and "x < 2 powi (e + 1)"
  shows "ilog2 x = e"
proof -
  have x: "0 < x"
    using assms(1) by (rule order_less_le_trans [rotated]) simp
  have "ilog2 x < e + 1" and "e < ilog2 x + 1"
    using ilog2_bounds [OF x] assms by (auto simp flip: powi2_less)
  then show ?thesis by simp
qed

lemma ilog2_mono:
  assumes "0 < x" and "x \<le> y"
  shows "ilog2 x \<le> ilog2 y"
proof -
  have "2 powi ilog2 x < (2 powi (ilog2 y + 1) :: rat)"
    using ilog2_bounds(1) [OF assms(1)] ilog2_bounds(2) [of y] assms by linarith
  then show ?thesis by (simp add: powi2_less)
qed

lemma rne_floor: "\<lfloor>y\<rfloor> \<le> rne y" and rne_ceil: "rne y \<le> \<lfloor>y\<rfloor> + 1"
  by (auto simp: rne_def Let_def)

lemma rne_of_int [simp]: "rne (of_int n) = n"
  by (simp add: rne_def)

lemma rne_error: "\<bar>of_int (rne y) - y\<bar> \<le> 1 / 2"
  using of_int_floor_le [of y] floor_less_one [of "y - of_int \<lfloor>y\<rfloor>"]
  unfolding rne_def Let_def by (auto simp: abs_le_iff)

lemma rne_mono:
  assumes "x \<le> y"
  shows "rne x \<le> rne y"
proof (cases "\<lfloor>x\<rfloor> = \<lfloor>y\<rfloor>")
  case True
  then show ?thesis using assms by (auto simp: rne_def Let_def)
next
  case False
  then have "\<lfloor>x\<rfloor> + 1 \<le> \<lfloor>y\<rfloor>"
    using floor_mono [OF assms] by linarith
  then show ?thesis using rne_ceil [of x] rne_floor [of y] by linarith
qed

lemma rnd64_0 [simp]: "rnd64 0 = 0"
  by (simp add: rnd64_def)

lemma rnd64_between:
  assumes "0 < x"
  shows "2 powi ilog2 x \<le> rnd64 x" and "rnd64 x \<le> 2 powi (ilog2 x + 1)"
proof -
  let ?u = "2 powi (ilog2 x - 52) :: rat"
  have e: "2 powi ilog2 x = of_int (2 ^ 52) * ?u"
    by (simp add: power_int_diff power_int_def [of _ "52"])
  have e1: "2 powi (ilog2 x + 1) = of_int (2 ^ 53) * ?u"
    by (simp add: power_int_diff power_int_add power_int_def [of _ "52"])
  have "of_int (2 ^ 52) \<le> x / ?u" and "x / ?u \<le> of_int (2 ^ 53)"
    using ilog2_bounds [OF assms] unfolding e e1 by (simp_all add: field_simps)
  then have "2 ^ 52 \<le> rne (x / ?u)" and "rne (x / ?u) \<le> 2 ^ 53"
    using rne_mono [of "of_int (2 ^ 52)" "x / ?u"] rne_mono [of "x / ?u" "of_int (2 ^ 53)"]
    by (simp_all only: rne_of_int)
  then have "(of_int (2 ^ 52) :: rat) \<le> of_int (rne (x / ?u))"
    and "(of_int (rne (x / ?u)) :: rat) \<le> of_int (2 ^ 53)"
    by (simp_all only: of_int_le_iff)
  then show "2 powi ilog2 x \<le> rnd64 x" and "rnd64 x \<le> 2 powi (ilog2 x + 1)"
    using assms unfolding e e1 rnd64_def Let_def by (simp_all add: mult_right_mono)
qed

lemma rnd64_nonneg [simp]: "0 \<le> rnd64 x"
  using rnd64_between(1) [of x] by (cases "0 < x") (auto simp: rnd64_def intro: order_trans [rotated])

lemma rnd64_mono:
  assumes "x \<le> y"
  shows "rnd64 x \<le> rnd64 y"
proof (cases "0 < x")
  case False
  then show ?thesis by (simp add: rnd64_def [of x])
next
  case x: True
  with assms have y: "0 < y" by linarith
  show ?thesis
  proof (cases "ilog2 x = ilog2 y")
    case True
    then show ?thesis
      using x y assms by (auto simp: rnd64_def Let_def intro!: mult_right_mono rne_mono divide_right_mono)
  next
    case False
    then have "ilog2 x + 1 \<le> ilog2 y"
      using ilog2_mono [OF x assms] by linarith
    then have "(2 powi (ilog2 x + 1) :: rat) \<le> 2 powi ilog2 y"
      by (simp add: powi2_le)
    then show ?thesis
      using rnd64_between(2) [OF x] rnd64_between(1) [OF y] by linarith
  qed
qed

lemma rnd64_error:
  assumes "0 < x"
  shows "\<bar>rnd64 x - x\<bar> \<le> x / 2 ^ 53"
proof -
  let ?u = "2 powi (ilog2 x - 52) :: rat"
  have "rnd64 x - x = (of_int (rne (x / ?u)) - x / ?u) * ?u"
    using assms by (simp add: rnd64_def Let_def field_simps)
  then have "\<bar>rnd64 x - x\<bar> = \<bar>of_int (rne (x / ?u)) - x / ?u\<bar> * ?u"
    by (simp add: abs_mult)
  also have "\<dots> \<le> 1 / 2 * ?u"
    by (intro mult_right_mono rne_error) simp
  also have "\<dots> = 2 powi ilog2 x / 2 ^ 53"
    by (simp add: power_int_diff power_int_def [of _ "52"])
  also have "\<dots> \<le> x / 2 ^ 53"
    using ilog2_bounds(1) [OF assms] by (simp add: divide_right_mono)
  finally show ?thesis .
qed

lemma rnd64_dyadic:
  assumes "0 < m" and "m < 2 ^ 53"
  shows "rnd64 (of_nat m * 2 powi p) = of_nat m * 2 powi p"
proof -
  let ?x = "of_nat m * 2 powi p :: rat"
  have x: "0 < ?x" using assms by simp
  have "(of_nat m :: rat) < of_nat (2 ^ 53)"
    using assms(2) by (simp only: of_nat_less_iff)
  then have "?x < 2 powi (p + 53)"
    by (simp add: power_int_add power_int_def [of _ "53"] mult.commute)
  with ilog2_bounds(1) [OF x] have "ilog2 ?x < p + 53"
    by (simp flip: powi2_less [of _ "p + 53"]) 
  then have k: "0 \<le> p - (ilog2 ?x - 52)" by linarith
  let ?u = "2 powi (ilog2 ?x - 52) :: rat"
  have "?x / ?u = of_nat m * 2 powi (p - (ilog2 ?x - 52))"
    by (simp add: power_int_diff)
  also have "\<dots> = of_int (int m * 2 ^ nat (p - (ilog2 ?x - 52)))"
    using k by (simp add: power_int_def [of _ "p - (ilog2 ?x - 52)"])
  finally have q: "?x / ?u = of_int (int m * 2 ^ nat (p - (ilog2 ?x - 52)))" .
  have "rnd64 ?x = of_int (rne (?x / ?u)) * ?u"
    using x by (simp add: rnd64_def Let_def)
  also have "\<dots> = (?x / ?u) * ?u"
    by (subst (1 2) q) (simp only: rne_of_int)
  finally show ?thesis by simp
qed

lemma rnd64_of_nat:
  assumes "n \<le> 2 ^ 53"
  shows "rnd64 (of_nat n) = of_nat n"
proof -
  consider "n = 0" | "0 < n" "n < 2 ^ 53" | "n = 2 ^ 53"
    using assms by linarith
  then show ?thesis
  proof cases
    case 1
    then show ?thesis by simp
  next
    case 2
    then show ?thesis using rnd64_dyadic [of n 0] by simp
  next
    case 3
    then have "(of_nat n :: rat) = of_nat 1 * 2 powi 53"
      by (simp add: power_int_def)
    then show ?thesis using rnd64_dyadic [of 1 53] by simp
  qed
qed

lemma rnd64_1 [simp]: "rnd64 1 = 1"
  using rnd64_of_nat [of 1] by simp

lemma f64_of_nat_exact: "n \<le> 2 ^ 53 \<Longrightarrow> f64_of_nat n = of_nat n"
  by (simp add: f64_of_nat_def rnd64_of_nat)

lemma f64_of_nat_nonneg [simp]: "0 \<le> f64_of_nat n"
  by (simp add: f64_of_nat_def)

lemma f64_of_nat_mono: "m \<le> n \<Longrightarrow> f64_of_nat m \<le> f64_of_nat n"
  by (simp add: f64_of_nat_def rnd64_mono)

lemma f64_of_nat_pos: "0 < n \<Longrightarrow> 0 < f64_of_nat n"
  using f64_of_nat_mono [of 1 n] by (simp add: f64_of_nat_exact)

lemma f64_of_nat_ge_1: "0 < n \<Longrightarrow> 1 \<le> f64_of_nat n"
  using f64_of_nat_mono [of 1 n] by (simp add: f64_of_nat_exact)

text \<open>A quotient of counters is at most 1 when the numerator is at most the denominator.\<close>

lemma f64_ratio_le_1:
  assumes "m \<le> n" and "0 < n"
  shows "f64_div (f64_of_nat m) (f64_of_nat n) \<le> 1"
proof -
  have "f64_of_nat m / f64_of_nat n \<le> 1"
    using f64_of_nat_mono [OF assms(1)] f64_of_nat_pos [OF assms(2)] by simp
  then show ?thesis
    using rnd64_mono [of _ 1] by (simp add: f64_div_def)
qed

section \<open>The product with 0.1\<close>

definition f64_tenth :: f64 where
  "f64_tenth = rnd64 (1 / 10)"

lemma f64_tenth_value: "f64_tenth = 3602879701896397 / 36028797018963968"
proof -
  have "ilog2 (1 / 10) = - 4"
    by (rule ilog2_unique) (simp_all add: power_int_def field_simps)
  moreover have "rne (36028797018963968 / 5) = 7205759403792794"
  proof -
    have "\<lfloor>36028797018963968 / 5 :: rat\<rfloor> = 7205759403792793"
      by (simp add: floor_eq_iff)
    then show ?thesis by (simp add: rne_def Let_def)
  qed
  ultimately show ?thesis
    by (simp add: f64_tenth_def rnd64_def Let_def power_int_def power_divide)
qed

text \<open>
  \<open>(d as f64 * 0.1) as u64\<close> is the integer quotient \<open>d / 10\<close> for every \<open>d\<close> up to \<open>2^49\<close>.
\<close>

lemma floor_f64_tenth:
  assumes "d \<le> 2 ^ 49"
  shows "\<lfloor>f64_mul (f64_of_nat d) f64_tenth\<rfloor> = int (d div 10)"
proof -
  define n where "n = d div 10"
  define x where "x = (of_nat d * f64_tenth :: rat)"
  have d: "d = 10 * n + d mod 10" "d mod 10 \<le> 9"
    by (simp_all add: n_def)
  have dq: "(of_nat d :: rat) = 10 * of_nat n + of_nat (d mod 10)"
    by (subst d(1)) simp
  have r: "(of_nat (d mod 10) :: rat) \<le> 9"
    using d(2) by (metis of_nat_le_iff of_nat_numeral)
  have small: "(of_nat d :: rat) \<le> 2 ^ 49"
    using assms by (metis of_nat_le_iff of_nat_numeral of_nat_power)
  have lo: "of_nat n \<le> x"
    by (simp add: x_def f64_tenth_value dq field_simps)
  have hi: "x \<le> of_nat (16 * n + 15) * 2 powi (- 4)"
    using small r by (simp add: x_def f64_tenth_value dq power_int_def field_simps)
  have n53: "16 * n + 15 < 2 ^ 53" "n \<le> 2 ^ 53"
    using assms by (simp_all add: n_def)
  have "of_nat n \<le> rnd64 x"
    using rnd64_mono [OF lo] unfolding rnd64_of_nat [OF n53(2)] .
  moreover have "rnd64 x \<le> of_nat (16 * n + 15) * 2 powi (- 4)"
    using rnd64_mono [OF hi] rnd64_dyadic [of "16 * n + 15" "- 4"] n53 by simp
  then have "rnd64 x < of_nat n + 1"
    by (simp add: power_int_def field_simps)
  ultimately have "\<lfloor>rnd64 x\<rfloor> = int n"
    by (simp add: floor_eq_iff)
  moreover have "f64_mul (f64_of_nat d) f64_tenth = rnd64 x"
    using assms by (simp add: f64_mul_def x_def f64_of_nat_exact)
  ultimately show ?thesis by (simp add: n_def)
qed

text \<open>Without a bound on \<open>d\<close>: the product truncates to zero exactly below 10.\<close>

lemma floor_f64_tenth_pos:
  assumes "10 \<le> d"
  shows "1 \<le> \<lfloor>f64_mul (f64_of_nat d) f64_tenth\<rfloor>"
proof -
  have "(10 :: rat) \<le> f64_of_nat d"
    using f64_of_nat_mono [OF assms] by (simp add: f64_of_nat_exact)
  then have "1 \<le> f64_of_nat d * f64_tenth"
    by (simp add: f64_tenth_value field_simps)
  then have "1 \<le> f64_mul (f64_of_nat d) f64_tenth"
    using rnd64_mono by (fastforce simp: f64_mul_def)
  then show ?thesis by (simp add: le_floor_iff)
qed

text \<open>Beyond \<open>2^49\<close> the rounding shows, but by less than one part in \<open>2^53\<close>.\<close>

lemma rnd64_close:
  assumes "0 \<le> x"
  shows "\<bar>rnd64 x - x\<bar> \<le> x / 2 ^ 53"
  using rnd64_error [of x] assms by (cases "x = 0") auto

lemma f64_tenth_close:
  "\<bar>f64_mul (f64_of_nat d) f64_tenth - of_nat d / 10\<bar> \<le> of_nat d / 2 ^ 54"
proof -
  define u where "u = (1 :: rat) / 2 ^ 53"
  define x where "x = f64_of_nat d"
  define D where "D = (of_nat d :: rat)"
  have per: "z / 2 ^ 53 = z * u" for z by (simp add: u_def)
  have D: "0 \<le> D" by (simp add: D_def)
  have close: "z * (1 - u) \<le> rnd64 z" "rnd64 z \<le> z * (1 + u)" if "0 \<le> z" for z
    using rnd64_close [OF that] unfolding per abs_le_iff by (simp_all add: algebra_simps)
  have x: "D * (1 - u) \<le> x" "x \<le> D * (1 + u)"
    using close [OF D] by (simp_all add: x_def f64_of_nat_def D_def)
  have x0: "0 \<le> x" by (simp add: x_def)
  let ?p = "x * f64_tenth"
  have t: "0 \<le> f64_tenth" by (simp add: f64_tenth_value)
  have y: "?p * (1 - u) \<le> rnd64 ?p" "rnd64 ?p \<le> ?p * (1 + u)"
    using close [of ?p] x0 t by simp_all
  have u: "0 \<le> 1 - u" "0 \<le> 1 + u" by (simp_all add: u_def)
  have "D * (1 - u) * f64_tenth * (1 - u) \<le> ?p * (1 - u)"
    using x(1) t u by (intro mult_right_mono) simp_all
  moreover have "?p * (1 + u) \<le> D * (1 + u) * f64_tenth * (1 + u)"
    using x(2) t u by (intro mult_right_mono) simp_all
  moreover have "D * (1 / 10 - 1 / 2 ^ 54) \<le> D * ((1 - u) * f64_tenth * (1 - u))"
    using D by (intro mult_left_mono) (simp_all add: u_def f64_tenth_value)
  moreover have "D * ((1 + u) * f64_tenth * (1 + u)) \<le> D * (1 / 10 + 1 / 2 ^ 54)"
    using D by (intro mult_left_mono) (simp_all add: u_def f64_tenth_value)
  ultimately have "D * (1 / 10 - 1 / 2 ^ 54) \<le> rnd64 ?p" "rnd64 ?p \<le> D * (1 / 10 + 1 / 2 ^ 54)"
    using y by (simp_all only: mult.assoc)
  then have "\<bar>rnd64 ?p - D / 10\<bar> \<le> D / 2 ^ 54"
    unfolding right_diff_distrib distrib_left abs_le_iff by (simp only: times_divide_eq_right mult_1_right) linarith
  then show ?thesis
    by (simp only: f64_mul_def x_def D_def)
qed

lemma floor_f64_tenth_close:
  shows "\<lfloor>f64_mul (f64_of_nat d) f64_tenth\<rfloor> \<le> int (d div 10 + d div 2 ^ 54 + 1)"
    and "int (d div 10) \<le> \<lfloor>f64_mul (f64_of_nat d) f64_tenth\<rfloor> + int (d div 2 ^ 54) + 1"
proof -
  let ?y = "f64_mul (f64_of_nat d) f64_tenth"
  have quot: "of_nat (d div k) \<le> (of_nat d / of_nat k :: rat)"
    "(of_nat d / of_nat k :: rat) < of_nat (d div k) + 1" if "0 < k" for k
  proof -
    have "d div k * k \<le> d" and "d < (d div k + 1) * k"
      using that dividend_less_div_times [of k d] by (simp_all add: algebra_simps)
    then have "(of_nat (d div k * k) :: rat) \<le> of_nat d" and "(of_nat d :: rat) < of_nat ((d div k + 1) * k)"
      by (simp_all only: of_nat_le_iff of_nat_less_iff)
    then show "of_nat (d div k) \<le> (of_nat d / of_nat k :: rat)"
      "(of_nat d / of_nat k :: rat) < of_nat (d div k) + 1"
      using that by (simp_all add: field_simps)
  qed
  note q = quot [of 10, simplified] quot [of "2 ^ 54", simplified]
  have y: "?y \<le> of_nat d / 10 + of_nat d / 2 ^ 54" "of_nat d / 10 - of_nat d / 2 ^ 54 \<le> ?y"
    using f64_tenth_close [of d] unfolding abs_le_iff by linarith+
  have "?y < of_int (int (d div 10 + d div 2 ^ 54 + 1) + 1)"
    using y(1) q by simp
  then show "\<lfloor>?y\<rfloor> \<le> int (d div 10 + d div 2 ^ 54 + 1)"
    by (simp add: floor_le_iff)
  have "(of_int (int (d div 10) - int (d div 2 ^ 54) - 1) :: rat) \<le> ?y"
    using y(2) q by simp
  then show "int (d div 10) \<le> \<lfloor>?y\<rfloor> + int (d div 2 ^ 54) + 1"
    by (simp only: le_floor_iff [symmetric])
qed

end
