(* ===== verification/Config.thy ===== *)
theory Config
  imports Prelude
begin

text \<open>
  The network configuration (\<open>src/config.rs\<close>). \<open>Multiaddr\<close> is a type of another crate: a type
  variable, with its parser as an argument of the default configuration. \<open>None\<close> of
  \<open>config_default\<close> is the panic of \<open>expect\<close>.
\<close>

record 'addr network_config =
  cfg_listen_address :: 'addr
  cfg_external_address :: "'addr option"
  cfg_bootstrap_peers :: "'addr list"
  cfg_max_peers :: usize
  cfg_min_peers :: usize
  cfg_connection_timeout :: duration
  cfg_enable_quic :: bool
  cfg_enable_tcp :: bool
  cfg_enable_mdns :: bool
  cfg_dht_server_mode :: bool
  cfg_max_message_size :: usize
  cfg_rate_limit_per_peer :: u32
  cfg_gossip_heartbeat_interval :: duration
  cfg_gossip_history_length :: usize
  cfg_gossip_history_time :: duration

definition config_default :: "(string \<Rightarrow> 'addr option) \<Rightarrow> 'addr network_config option" where
  "config_default parse =
     (case parse ''/ip4/0.0.0.0/tcp/9000'' of
        None \<Rightarrow> None
      | Some listen_address \<Rightarrow>
          Some \<lparr>cfg_listen_address = listen_address,
                cfg_external_address = None,
                cfg_bootstrap_peers = [],
                cfg_max_peers = 50,
                cfg_min_peers = 8,
                cfg_connection_timeout = duration_from_secs 30,
                cfg_enable_quic = True,
                cfg_enable_tcp = True,
                cfg_enable_mdns = True,
                cfg_dht_server_mode = False,
                cfg_max_message_size = 10 * 1024 * 1024,
                cfg_rate_limit_per_peer = 10000,
                cfg_gossip_heartbeat_interval = duration_from_millis 700,
                cfg_gossip_history_length = 5,
                cfg_gossip_history_time = duration_from_secs 120\<rparr>)"

definition config_new :: "(string \<Rightarrow> 'addr option) \<Rightarrow> 'addr \<Rightarrow> 'addr network_config option" where
  "config_new parse listen_address =
     map_option (\<lambda>c. c\<lparr>cfg_listen_address := listen_address\<rparr>) (config_default parse)"

definition with_external_address :: "'addr \<Rightarrow> 'addr network_config \<Rightarrow> 'addr network_config" where
  "with_external_address a c = c\<lparr>cfg_external_address := Some a\<rparr>"

definition with_bootstrap_peer :: "'addr \<Rightarrow> 'addr network_config \<Rightarrow> 'addr network_config" where
  "with_bootstrap_peer a c = c\<lparr>cfg_bootstrap_peers := cfg_bootstrap_peers c @ [a]\<rparr>"

definition with_max_peers :: "usize \<Rightarrow> 'addr network_config \<Rightarrow> 'addr network_config" where
  "with_max_peers n c = c\<lparr>cfg_max_peers := n\<rparr>"

definition with_dht_server_mode :: "bool \<Rightarrow> 'addr network_config \<Rightarrow> 'addr network_config" where
  "with_dht_server_mode b c = c\<lparr>cfg_dht_server_mode := b\<rparr>"

definition validate :: "'addr network_config \<Rightarrow> string + unit" where
  "validate c =
     (if cfg_max_peers c < cfg_min_peers c then Inl ''max_peers must be >= min_peers''
      else if cfg_max_peers c = 0 then Inl ''max_peers must be > 0''
      else if \<not> cfg_enable_tcp c \<and> \<not> cfg_enable_quic c
        then Inl ''At least one transport (TCP or QUIC) must be enabled''
      else if cfg_max_message_size c = 0 then Inl ''max_message_size must be > 0''
      else if cfg_rate_limit_per_peer c = 0 then Inl ''rate_limit_per_peer must be > 0''
      else Inr ())"

lemmas config_builder_defs =
  with_dht_server_mode_def with_max_peers_def with_bootstrap_peer_def with_external_address_def

lemma validate_Inr_iff:
  "validate c = Inr () \<longleftrightarrow>
     cfg_min_peers c \<le> cfg_max_peers c \<and> 0 < cfg_max_peers c
     \<and> (cfg_enable_tcp c \<or> cfg_enable_quic c)
     \<and> 0 < cfg_max_message_size c \<and> 0 < cfg_rate_limit_per_peer c"
  by (simp add: validate_def word_gt_0 linorder_not_less)

text \<open>
  Validation accepts exactly the usable configurations (at least one and at least
  \<open>min_peers\<close> peers, a transport, a positive message size and a positive rate limit); a
  configuration built from the defaults by the builder methods is accepted exactly when its peer
  maximum is at least the default minimum of 8.
\<close>

lemma validate_accepts:
  assumes "config_new parse a = Some c"
  shows "(validate c' = Inr () \<longleftrightarrow>
            cfg_min_peers c' \<le> cfg_max_peers c' \<and> 0 < cfg_max_peers c'
          \<and> (cfg_enable_tcp c' \<or> cfg_enable_quic c')
          \<and> 0 < cfg_max_message_size c' \<and> 0 < cfg_rate_limit_per_peer c')
       \<and> validate c = Inr ()
       \<and> (validate (with_dht_server_mode b (with_max_peers n
             (with_bootstrap_peer a1 (with_external_address a2 c)))) = Inr () \<longleftrightarrow> 8 \<le> n)"
proof -
  have "cfg_max_peers c = 50" "cfg_min_peers c = 8" "cfg_enable_tcp c" "cfg_max_message_size c = 10485760"
    "cfg_rate_limit_per_peer c = 10000"
    using assms by (auto simp: config_new_def config_default_def split: option.splits)
  then show ?thesis
    by (auto simp: validate_Inr_iff config_builder_defs)
qed

lemma validate_accepts_witness:
  "\<exists>c. config_new Some ''/ip4/1.2.3.4/tcp/1'' = Some c \<and> validate c = Inr ()
     \<and> validate (with_dht_server_mode True (with_max_peers 7
           (with_bootstrap_peer ''x'' (with_external_address ''y'' c)))) \<noteq> Inr ()"
proof -
  obtain c where c: "config_new Some ''/ip4/1.2.3.4/tcp/1'' = Some c"
    unfolding config_new_def config_default_def by auto
  show ?thesis
    using c validate_accepts [OF c, of c True 7 "''x''" "''y''"] by auto
qed

end
