(* ===== verification/Behaviour.thy ===== *)
theory Behaviour
  imports Config
begin

text \<open>
  The combined \<open>libp2p\<close> behaviour (\<open>src/behaviour.rs\<close>). The five protocols are types of \<open>libp2p\<close>
  and their constructors and methods arguments of the model, grouped in the record \<open>libp2p\<close>; the
  settings that the crate fills in for them are records. \<open>hash_data\<close> is the standard library's
  \<open>DefaultHasher\<close> on a vector of bytes, whose algorithm is not specified.
\<close>

section \<open>Settings\<close>

datatype kad_mode = Mode_Server | Mode_Client

datatype validation_mode = Validation_Strict | Validation_Permissive | Validation_Anonymous | Validation_None

record gossipsub_settings =
  gs_heartbeat_interval :: duration
  gs_validation_mode :: validation_mode
  gs_message_id :: "u8 list \<Rightarrow> string"
  gs_max_transmit_size :: usize

record 'key identify_settings =
  is_protocol_version :: string
  is_public_key :: 'key
  is_agent_version :: string

record mdns_settings =
  md_ttl :: duration
  md_query_interval :: duration
  md_enable_ipv6 :: bool

text \<open>\<open>Box<dyn Error>\<close>: a formatted message or the error of a library as it is.\<close>

datatype 'e boxed_error = Boxed_Message string | Boxed_Error 'e

text \<open>
  \<open>lp_kad\<close> makes the store, the Kademlia behaviour with its query timeout, and sets its mode;
  \<open>lp_gossipsub_config\<close> is \<open>build\<close> of the builder and \<open>lp_gossipsub\<close> the constructor with signed
  messages, their errors rendered by \<open>Display\<close>.
\<close>

record ('peer, 'keypair, 'pubkey, 'kad, 'gcfg, 'gossip, 'identify, 'ping, 'mdns, 'err) libp2p =
  lp_public :: "'keypair \<Rightarrow> 'pubkey"
  lp_kad :: "'peer \<Rightarrow> duration \<Rightarrow> kad_mode \<Rightarrow> 'kad"
  lp_gossipsub_config :: "gossipsub_settings \<Rightarrow> string + 'gcfg"
  lp_gossipsub :: "'keypair \<Rightarrow> 'gcfg \<Rightarrow> string + 'gossip"
  lp_identify :: "'pubkey identify_settings \<Rightarrow> 'identify"
  lp_ping :: "duration \<Rightarrow> duration \<Rightarrow> 'ping"
  lp_mdns_default :: mdns_settings
  lp_mdns :: "mdns_settings \<Rightarrow> 'peer \<Rightarrow> 'err + 'mdns"

section \<open>Construction\<close>

record ('kad, 'gossip, 'identify, 'ping, 'mdns) silver_behaviour =
  sb_kad :: 'kad
  sb_gossipsub :: 'gossip
  sb_identify :: 'identify
  sb_ping :: 'ping
  sb_mdns :: 'mdns

text \<open>The closure given to \<open>message_id_fn\<close>: the decimal rendering of a 64-bit hash of the data.\<close>

definition content_id :: "(u8 list \<Rightarrow> u64) \<Rightarrow> u8 list \<Rightarrow> string" where
  "content_id hash_data data = show_nat (unat (hash_data data))"

definition gossipsub_config :: "(u8 list \<Rightarrow> u64) \<Rightarrow> gossipsub_settings" where
  "gossipsub_config hash_data =
     \<lparr>gs_heartbeat_interval = duration_from_millis 700, gs_validation_mode = Validation_Strict,
      gs_message_id = content_id hash_data, gs_max_transmit_size = 10 * 1024 * 1024\<rparr>"

definition identify_config :: "'key \<Rightarrow> 'key identify_settings" where
  "identify_config key =
     \<lparr>is_protocol_version = ''/silverbitcoin/1.0.0'', is_public_key = key,
      is_agent_version = ''silverbitcoin/2.5.3''\<rparr>"

definition mdns_disabled :: mdns_settings where
  "mdns_disabled =
     \<lparr>md_ttl = duration_from_secs 60, md_query_interval = duration_from_secs 3600, md_enable_ipv6 = False\<rparr>"

definition behaviour_new ::
  "('peer, 'keypair, 'pubkey, 'kad, 'gcfg, 'gossip, 'identify, 'ping, 'mdns, 'err) libp2p
     \<Rightarrow> (u8 list \<Rightarrow> u64) \<Rightarrow> 'peer \<Rightarrow> 'keypair \<Rightarrow> bool \<Rightarrow> bool
     \<Rightarrow> 'err boxed_error + ('kad, 'gossip, 'identify, 'ping, 'mdns) silver_behaviour" where
  "behaviour_new lp hash_data local_peer_id local_keypair enable_mdns dht_server_mode =
     (let kad = lp_kad lp local_peer_id (duration_from_secs 60)
                  (if dht_server_mode then Mode_Server else Mode_Client)
      in case lp_gossipsub_config lp (gossipsub_config hash_data) of
           Inl e \<Rightarrow> Inl (Boxed_Message (''Failed to build gossipsub config: '' @ e))
         | Inr config \<Rightarrow>
             (case lp_gossipsub lp local_keypair config of
                Inl e \<Rightarrow> Inl (Boxed_Message (''Failed to create gossipsub behaviour: '' @ e))
              | Inr gossipsub \<Rightarrow>
                  (let identify = lp_identify lp (identify_config (lp_public lp local_keypair));
                       ping = lp_ping lp (duration_from_secs 30) (duration_from_secs 10)
                   in case lp_mdns lp (if enable_mdns then lp_mdns_default lp else mdns_disabled)
                             local_peer_id of
                        Inl e \<Rightarrow> Inl (Boxed_Error e)
                      | Inr mdns \<Rightarrow>
                          Inr \<lparr>sb_kad = kad, sb_gossipsub = gossipsub, sb_identify = identify,
                               sb_ping = ping, sb_mdns = mdns\<rparr>)))"

section \<open>Operations\<close>

text \<open>Each forwards to one protocol, whose method is the first argument, and leaves the others alone.\<close>

definition behaviour_subscribe ::
  "(string \<Rightarrow> 'gossip \<Rightarrow> ('e + bool) \<times> 'gossip) \<Rightarrow> string
     \<Rightarrow> ('kad, 'gossip, 'identify, 'ping, 'mdns) silver_behaviour
     \<Rightarrow> ('e + bool) \<times> ('kad, 'gossip, 'identify, 'ping, 'mdns) silver_behaviour" where
  "behaviour_subscribe gossip_subscribe topic b =
     (let (r, g) = gossip_subscribe topic (sb_gossipsub b) in (r, b\<lparr>sb_gossipsub := g\<rparr>))"

definition behaviour_unsubscribe ::
  "(string \<Rightarrow> 'gossip \<Rightarrow> ('e + bool) \<times> 'gossip) \<Rightarrow> string
     \<Rightarrow> ('kad, 'gossip, 'identify, 'ping, 'mdns) silver_behaviour
     \<Rightarrow> ('e + bool) \<times> ('kad, 'gossip, 'identify, 'ping, 'mdns) silver_behaviour" where
  "behaviour_unsubscribe gossip_unsubscribe topic b =
     (let (r, g) = gossip_unsubscribe topic (sb_gossipsub b) in (r, b\<lparr>sb_gossipsub := g\<rparr>))"

definition behaviour_publish ::
  "(string \<Rightarrow> u8 list \<Rightarrow> 'gossip \<Rightarrow> ('e + string) \<times> 'gossip) \<Rightarrow> string \<Rightarrow> u8 list
     \<Rightarrow> ('kad, 'gossip, 'identify, 'ping, 'mdns) silver_behaviour
     \<Rightarrow> ('e + string) \<times> ('kad, 'gossip, 'identify, 'ping, 'mdns) silver_behaviour" where
  "behaviour_publish gossip_publish topic data b =
     (let (r, g) = gossip_publish topic data (sb_gossipsub b) in (r, b\<lparr>sb_gossipsub := g\<rparr>))"

definition behaviour_add_address ::
  "('peer \<Rightarrow> 'addr \<Rightarrow> 'kad \<Rightarrow> 'kad) \<Rightarrow> 'peer \<Rightarrow> 'addr
     \<Rightarrow> ('kad, 'gossip, 'identify, 'ping, 'mdns) silver_behaviour
     \<Rightarrow> ('kad, 'gossip, 'identify, 'ping, 'mdns) silver_behaviour" where
  "behaviour_add_address kad_add peer_id address b = b\<lparr>sb_kad := kad_add peer_id address (sb_kad b)\<rparr>"

definition behaviour_bootstrap ::
  "('kad \<Rightarrow> ('e + 'query) \<times> 'kad) \<Rightarrow> ('kad, 'gossip, 'identify, 'ping, 'mdns) silver_behaviour
     \<Rightarrow> ('e + 'query) \<times> ('kad, 'gossip, 'identify, 'ping, 'mdns) silver_behaviour" where
  "behaviour_bootstrap kad_bootstrap b =
     (let (r, k) = kad_bootstrap (sb_kad b) in (r, b\<lparr>sb_kad := k\<rparr>))"

definition behaviour_connected_peers ::
  "('gossip \<Rightarrow> 'peer list) \<Rightarrow> ('kad, 'gossip, 'identify, 'ping, 'mdns) silver_behaviour \<Rightarrow> usize" where
  "behaviour_connected_peers all_peers b = length (all_peers (sb_gossipsub b))"

lemmas behaviour_op_defs = behaviour_subscribe_def behaviour_unsubscribe_def behaviour_publish_def
  behaviour_add_address_def behaviour_bootstrap_def

section \<open>What the construction guarantees\<close>

text \<open>
  The result in terms of the three constructors that can fail: the first failure decides the error,
  and the node gets exactly the parts its flags ask for. With mDNS off a behaviour still runs, with
  a query every hour.
\<close>

lemma behaviour_new_Inr_iff:
  "behaviour_new lp hash_data p key enable_mdns server = Inr b \<longleftrightarrow>
     (\<exists>config. lp_gossipsub_config lp (gossipsub_config hash_data) = Inr config
        \<and> lp_gossipsub lp key config = Inr (sb_gossipsub b))
     \<and> lp_mdns lp (if enable_mdns then lp_mdns_default lp else mdns_disabled) p = Inr (sb_mdns b)
     \<and> sb_kad b = lp_kad lp p (duration_from_secs 60) (if server then Mode_Server else Mode_Client)
     \<and> sb_identify b = lp_identify lp (identify_config (lp_public lp key))
     \<and> sb_ping b = lp_ping lp (duration_from_secs 30) (duration_from_secs 10)"
  by (cases b) (auto simp: behaviour_new_def Let_def split: sum.splits)

lemma behaviour_new_Inl:
  assumes "behaviour_new lp hash_data p key enable_mdns server = Inl e"
  obtains (config) m where "lp_gossipsub_config lp (gossipsub_config hash_data) = Inl m"
      and "e = Boxed_Message (''Failed to build gossipsub config: '' @ m)"
    | (gossipsub) config m where "lp_gossipsub lp key config = Inl m"
      and "e = Boxed_Message (''Failed to create gossipsub behaviour: '' @ m)"
    | (mdns) m where "lp_mdns lp (if enable_mdns then lp_mdns_default lp else mdns_disabled) p = Inl m"
      and "e = Boxed_Error m"
  using assms by (fastforce simp: behaviour_new_def Let_def split: sum.splits)

text \<open>
  The constants are those of the default configuration, and only of that one: the constructor does
  not see \<open>NetworkConfig\<close>, so another heartbeat or message size set there has no effect.
\<close>

lemma gossipsub_default_config:
  assumes "config_default parse = Some c"
  shows "gs_heartbeat_interval (gossipsub_config hash_data) = cfg_gossip_heartbeat_interval c"
    and "gs_max_transmit_size (gossipsub_config hash_data) = cfg_max_message_size c"
  using assms by (auto simp: config_default_def gossipsub_config_def split: option.splits)

section \<open>Message identifiers\<close>

text \<open>An identifier depends on the data alone, and as much as the 64-bit hash does.\<close>

lemma content_id_eq_iff: "content_id h d = content_id h d' \<longleftrightarrow> h d = h d'"
  by (simp add: content_id_def show_nat_inject unsigned_word_eqI flip: word_unat_eq_iff)

text \<open>
  \<open>libp2p\<close> documents that \<open>publish\<close> refuses a message whose identifier it has published; \<open>seen\<close> are
  these identifiers. Since the identifier ignores the topic, bytes published on one topic are
  refused on every other.
\<close>

lemma republish_refused:
  assumes refuses: "\<And>t d g. content_id h d \<in> seen g \<Longrightarrow> fst (gossip_publish t d g) = Inl duplicate"
    and records: "\<And>t d g i g'. gossip_publish t d g = (Inr i, g') \<Longrightarrow> content_id h d \<in> seen g'"
    and first: "behaviour_publish gossip_publish topic data b = (Inr i, b')"
  shows "fst (behaviour_publish gossip_publish topic' data b') = Inl duplicate"
proof -
  obtain g' where "gossip_publish topic data (sb_gossipsub b) = (Inr i, g')"
    and "sb_gossipsub b' = g'"
    using first by (auto simp: behaviour_publish_def split: prod.splits)
  then have "content_id h data \<in> seen (sb_gossipsub b')"
    using records by blast
  from refuses [OF this, of topic'] show ?thesis
    by (simp add: behaviour_publish_def case_prod_beta)
qed

end
