(* ===== verification/Errors.thy ===== *)
theory Errors
  imports Prelude
begin

text \<open>
  The error vocabulary of the crate (\<open>src/error.rs\<close>): the context of an error, the
  \<open>NetworkError\<close> enum with its \<open>Display\<close> strings, and the classification that the recovery and
  logging layers rest on (\<open>is_recoverable\<close>, \<open>is_critical\<close>, \<open>recovery_strategy\<close>).
  The trait \<open>ErrorHandler\<close> is modelled by the call it receives (\<open>handler_call\<close>), its default
  implementation by the line it writes to the log for each call (\<open>default_handler\<close>).
\<close>

section \<open>Error context\<close>

record error_context =
  ec_operation :: string
  ec_peer_id :: "string option"
  ec_context :: string
  ec_timestamp :: system_time
  ec_recovery_suggestion :: "string option"

definition error_context_new :: "string \<Rightarrow> system_time \<Rightarrow> error_context" where
  "error_context_new operation now =
     \<lparr>ec_operation = operation, ec_peer_id = None, ec_context = [], ec_timestamp = now,
      ec_recovery_suggestion = None\<rparr>"

definition with_peer :: "string \<Rightarrow> error_context \<Rightarrow> error_context" where
  "with_peer peer c = c\<lparr>ec_peer_id := Some peer\<rparr>"

definition with_context :: "string \<Rightarrow> error_context \<Rightarrow> error_context" where
  "with_context info c = c\<lparr>ec_context := info\<rparr>"

definition with_recovery :: "string \<Rightarrow> error_context \<Rightarrow> error_context" where
  "with_recovery suggestion c = c\<lparr>ec_recovery_suggestion := Some suggestion\<rparr>"

definition error_context_display :: "error_context \<Rightarrow> string" where
  "error_context_display c =
     ''Operation: '' @ ec_operation c @ '', Context: '' @ ec_context c @
     (case ec_peer_id c of None \<Rightarrow> [] | Some peer \<Rightarrow> '', Peer: '' @ peer) @
     (case ec_recovery_suggestion c of None \<Rightarrow> [] | Some s \<Rightarrow> '', Recovery: '' @ s)"

section \<open>Network errors\<close>

datatype network_error =
    ConnectionFailed string
  | ConnectionTimeout string
  | ConnectionRefused string
  | ConnectionReset string
  | HandshakeFailed string
  | Discovery string
  | DiscoveryError string
  | Serialization string
  | SerializationError string
  | Deserialization string
  | DeserializationError string
  | MessageParsingFailed string
  | MalformedMessage string
  | RateLimitExceeded string
  | InvalidPeer string
  | PeerNotFound string
  | PeerDisconnected string
  | PeerUnhealthy string
  | MessageTooLarge usize usize
  | InvalidMessage string
  | InvalidMessageFormat string
  | OperationTimeout string
  | IoError string
  | ConfigurationError string
  | InvalidConfiguration string
  | TransportError string
  | NetworkPartition string
  | ResourceExhaustion string
  | CriticalError string
  | ShutdownInProgress string
  | OtherError string

fun network_error_display :: "network_error \<Rightarrow> string" where
  "network_error_display (ConnectionFailed m) = ''Connection failed: '' @ m"
| "network_error_display (ConnectionTimeout m) = ''Connection timeout: '' @ m"
| "network_error_display (ConnectionRefused m) = ''Connection refused: '' @ m"
| "network_error_display (ConnectionReset m) = ''Connection reset: '' @ m"
| "network_error_display (HandshakeFailed m) = ''Handshake failed: '' @ m"
| "network_error_display (Discovery m) = ''Peer discovery error: '' @ m"
| "network_error_display (DiscoveryError m) = ''Peer discovery error: '' @ m"
| "network_error_display (Serialization m) = ''Serialization error: '' @ m"
| "network_error_display (SerializationError m) = ''Serialization error: '' @ m"
| "network_error_display (Deserialization m) = ''Deserialization error: '' @ m"
| "network_error_display (DeserializationError m) = ''Deserialization error: '' @ m"
| "network_error_display (MessageParsingFailed m) = ''Message parsing failed: '' @ m"
| "network_error_display (MalformedMessage m) = ''Malformed message: '' @ m"
| "network_error_display (RateLimitExceeded m) = ''Rate limit exceeded for peer '' @ m"
| "network_error_display (InvalidPeer m) = ''Invalid peer: '' @ m"
| "network_error_display (PeerNotFound m) = ''Peer not found: '' @ m"
| "network_error_display (PeerDisconnected m) = ''Peer disconnected: '' @ m"
| "network_error_display (PeerUnhealthy m) = ''Peer unhealthy: '' @ m"
| "network_error_display (MessageTooLarge n limit) =
     ''Message too large: '' @ show_nat n @ '' bytes (max: '' @ show_nat limit @ '')''"
| "network_error_display (InvalidMessage m) = ''Invalid message: '' @ m"
| "network_error_display (InvalidMessageFormat m) = ''Invalid message format: '' @ m"
| "network_error_display (OperationTimeout m) = ''Operation timed out: '' @ m"
| "network_error_display (IoError m) = ''IO error: '' @ m"
| "network_error_display (ConfigurationError m) = ''Configuration error: '' @ m"
| "network_error_display (InvalidConfiguration m) = ''Invalid configuration: '' @ m"
| "network_error_display (TransportError m) = ''Transport error: '' @ m"
| "network_error_display (NetworkPartition m) = ''Network partition: '' @ m"
| "network_error_display (ResourceExhaustion m) = ''Resource exhaustion: '' @ m"
| "network_error_display (CriticalError m) = ''Critical error: '' @ m"
| "network_error_display (ShutdownInProgress m) = ''Shutdown in progress: '' @ m"
| "network_error_display (OtherError m) = ''Network error: '' @ m"

definition is_recoverable :: "network_error \<Rightarrow> bool" where
  "is_recoverable e =
     (case e of
        ConnectionTimeout _ \<Rightarrow> True
      | ConnectionReset _ \<Rightarrow> True
      | OperationTimeout _ \<Rightarrow> True
      | RateLimitExceeded _ \<Rightarrow> True
      | PeerDisconnected _ \<Rightarrow> True
      | NetworkPartition _ \<Rightarrow> True
      | _ \<Rightarrow> False)"

definition is_critical :: "network_error \<Rightarrow> bool" where
  "is_critical e =
     (case e of
        CriticalError _ \<Rightarrow> True
      | InvalidConfiguration _ \<Rightarrow> True
      | ResourceExhaustion _ \<Rightarrow> True
      | _ \<Rightarrow> False)"

datatype recovery_strategy =
    RS_ExponentialBackoff
  | RS_Throttle
  | RS_Reconnect
  | RS_Retry
  | RS_WaitAndRetry
  | RS_Alert
  | RS_FailStartup
  | RS_Log

definition recovery_strategy_of :: "network_error \<Rightarrow> recovery_strategy" where
  "recovery_strategy_of e =
     (case e of
        ConnectionTimeout _ \<Rightarrow> RS_ExponentialBackoff
      | ConnectionReset _ \<Rightarrow> RS_ExponentialBackoff
      | RateLimitExceeded _ \<Rightarrow> RS_Throttle
      | PeerDisconnected _ \<Rightarrow> RS_Reconnect
      | OperationTimeout _ \<Rightarrow> RS_Retry
      | NetworkPartition _ \<Rightarrow> RS_WaitAndRetry
      | CriticalError _ \<Rightarrow> RS_Alert
      | InvalidConfiguration _ \<Rightarrow> RS_FailStartup
      | _ \<Rightarrow> RS_Log)"

text \<open>The three methods of the trait \<open>ErrorHandler\<close>, as calls a handler receives.\<close>

datatype handler_call =
    HC_error network_error error_context
  | HC_critical network_error error_context
  | HC_recoverable network_error error_context

text \<open>
  \<open>DefaultErrorHandler\<close>: each call is one line of the log. \<open>le_recovery\<close> is \<open>None\<close> where the line has
  no field \<open>recovery\<close>.
\<close>

datatype log_level = Level_Error | Level_Warn

record log_event =
  le_level :: log_level
  le_error :: string
  le_operation :: string
  le_peer_id :: "string option"
  le_context :: string
  le_recovery :: "string option option"
  le_message :: string

definition log_line ::
  "log_level \<Rightarrow> network_error \<Rightarrow> error_context \<Rightarrow> string option option \<Rightarrow> string \<Rightarrow> log_event" where
  "log_line level err ctx recovery message =
     \<lparr>le_level = level, le_error = network_error_display err, le_operation = ec_operation ctx,
      le_peer_id = ec_peer_id ctx, le_context = ec_context ctx, le_recovery = recovery,
      le_message = message\<rparr>"

fun default_handler :: "handler_call \<Rightarrow> log_event" where
  "default_handler (HC_error err ctx) = log_line Level_Error err ctx None ''Network error occurred''"
| "default_handler (HC_critical err ctx) =
     log_line Level_Error err ctx (Some (ec_recovery_suggestion ctx))
       ''CRITICAL network error - operator intervention required''"
| "default_handler (HC_recoverable err ctx) =
     log_line Level_Warn err ctx (Some (ec_recovery_suggestion ctx))
       ''Recoverable network error - attempting recovery''"

lemmas error_class_defs = is_recoverable_def is_critical_def recovery_strategy_of_def

section \<open>The classification\<close>

text \<open>The strategies that ask for another attempt are those of the recoverable errors.\<close>

definition retrying_strategy :: "recovery_strategy \<Rightarrow> bool" where
  "retrying_strategy s \<longleftrightarrow> s \<notin> {RS_Alert, RS_FailStartup, RS_Log}"

lemma recoverable_iff_retrying: "is_recoverable e \<longleftrightarrow> retrying_strategy (recovery_strategy_of e)"
  by (cases e) (simp_all add: error_class_defs retrying_strategy_def)

lemma recoverable_not_critical: "is_recoverable e \<Longrightarrow> \<not> is_critical e"
  by (cases e) (simp_all add: error_class_defs)

lemma critical_strategy:
  "is_critical e \<Longrightarrow> recovery_strategy_of e \<in> {RS_Alert, RS_FailStartup, RS_Log}"
  by (cases e) (simp_all add: error_class_defs)

lemma strategy_alert_iff: "recovery_strategy_of e = RS_Alert \<longleftrightarrow> (\<exists>m. e = CriticalError m)"
  by (cases e) (simp_all add: error_class_defs)

end
