(* ===== verification/Error_Logging.thy ===== *)
theory Error_Logging
  imports Errors Float64 "HOL-Library.Sublist"
begin

text \<open>
  The error logger (\<open>src/error_logging.rs\<close>): error categories, the atomic counters of
  \<open>ErrorMetrics\<close> (64-bit, wrapping, as \<open>fetch_add\<close> does), the bounded history of \<open>ErrorLogger\<close>
  and its queries. The lemmas show that the history is the tail of the sequence of logged
  entries and that the counters count the logged errors by category.
\<close>

section \<open>Categories\<close>

datatype error_category =
    EC_Connection
  | EC_Message
  | EC_Peer
  | EC_Configuration
  | EC_Timeout
  | EC_RateLimit
  | EC_Resource
  | EC_Critical
  | EC_Other

instantiation error_category :: enum
begin

definition enum_error_category_def:
  "Enum.enum = [EC_Connection, EC_Message, EC_Peer, EC_Configuration, EC_Timeout, EC_RateLimit,
     EC_Resource, EC_Critical, EC_Other]"

definition enum_all_error_category_def:
  "Enum.enum_all P \<longleftrightarrow> list_all P (Enum.enum :: error_category list)"

definition enum_ex_error_category_def:
  "Enum.enum_ex P \<longleftrightarrow> list_ex P (Enum.enum :: error_category list)"

instance
proof
  have mem: "c \<in> set (Enum.enum :: error_category list)" for c
    by (cases c) (simp_all add: enum_error_category_def)
  then show "(UNIV :: error_category set) = set Enum.enum" by auto
  then show "Enum.enum_all P \<longleftrightarrow> Ball UNIV P" and "Enum.enum_ex P \<longleftrightarrow> Bex UNIV P"
    for P :: "error_category \<Rightarrow> bool"
    by (simp_all add: enum_all_error_category_def enum_ex_error_category_def list_all_iff list_ex_iff)
  show "distinct (Enum.enum :: error_category list)"
    by (simp add: enum_error_category_def)
qed

end

definition error_category_of :: "network_error \<Rightarrow> error_category" where
  "error_category_of e =
     (case e of
        ConnectionFailed _ \<Rightarrow> EC_Connection
      | ConnectionTimeout _ \<Rightarrow> EC_Connection
      | ConnectionRefused _ \<Rightarrow> EC_Connection
      | ConnectionReset _ \<Rightarrow> EC_Connection
      | HandshakeFailed _ \<Rightarrow> EC_Connection
      | SerializationError _ \<Rightarrow> EC_Message
      | DeserializationError _ \<Rightarrow> EC_Message
      | MessageParsingFailed _ \<Rightarrow> EC_Message
      | MalformedMessage _ \<Rightarrow> EC_Message
      | InvalidMessageFormat _ \<Rightarrow> EC_Message
      | MessageTooLarge _ _ \<Rightarrow> EC_Message
      | InvalidPeer _ \<Rightarrow> EC_Peer
      | PeerNotFound _ \<Rightarrow> EC_Peer
      | PeerDisconnected _ \<Rightarrow> EC_Peer
      | PeerUnhealthy _ \<Rightarrow> EC_Peer
      | ConfigurationError _ \<Rightarrow> EC_Configuration
      | InvalidConfiguration _ \<Rightarrow> EC_Configuration
      | OperationTimeout _ \<Rightarrow> EC_Timeout
      | RateLimitExceeded _ \<Rightarrow> EC_RateLimit
      | ResourceExhaustion _ \<Rightarrow> EC_Resource
      | CriticalError _ \<Rightarrow> EC_Critical
      | _ \<Rightarrow> EC_Other)"

section \<open>Metrics\<close>

record error_metrics =
  em_total_errors :: u64
  em_connection_errors :: u64
  em_message_errors :: u64
  em_peer_errors :: u64
  em_timeout_errors :: u64
  em_rate_limit_errors :: u64
  em_critical_errors :: u64
  em_recovered_errors :: u64

definition error_metrics_default :: error_metrics where
  "error_metrics_default =
     \<lparr>em_total_errors = 0, em_connection_errors = 0, em_message_errors = 0, em_peer_errors = 0,
      em_timeout_errors = 0, em_rate_limit_errors = 0, em_critical_errors = 0,
      em_recovered_errors = 0\<rparr>"

definition record_error :: "error_category \<Rightarrow> error_metrics \<Rightarrow> error_metrics" where
  "record_error category m0 =
     (let m = m0\<lparr>em_total_errors := em_total_errors m0 + 1\<rparr>
      in case category of
           EC_Connection \<Rightarrow> m\<lparr>em_connection_errors := em_connection_errors m + 1\<rparr>
         | EC_Message \<Rightarrow> m\<lparr>em_message_errors := em_message_errors m + 1\<rparr>
         | EC_Peer \<Rightarrow> m\<lparr>em_peer_errors := em_peer_errors m + 1\<rparr>
         | EC_Timeout \<Rightarrow> m\<lparr>em_timeout_errors := em_timeout_errors m + 1\<rparr>
         | EC_RateLimit \<Rightarrow> m\<lparr>em_rate_limit_errors := em_rate_limit_errors m + 1\<rparr>
         | EC_Critical \<Rightarrow> m\<lparr>em_critical_errors := em_critical_errors m + 1\<rparr>
         | _ \<Rightarrow> m)"

definition record_recovered :: "error_metrics \<Rightarrow> error_metrics" where
  "record_recovered m = m\<lparr>em_recovered_errors := em_recovered_errors m + 1\<rparr>"

section \<open>The logger\<close>

record error_log_entry =
  le_error :: string
  le_context :: error_context
  le_category :: error_category
  le_timestamp :: system_time
  le_recovered :: bool
  le_recovery_action :: "string option"

record error_logger =
  el_history :: "error_log_entry list"
  el_max_history_size :: usize
  el_metrics :: error_metrics

definition error_logger_new :: "usize \<Rightarrow> error_logger" where
  "error_logger_new max_history_size =
     \<lparr>el_history = [], el_max_history_size = max_history_size,
      el_metrics = error_metrics_default\<rparr>"

definition log_entry ::
  "network_error \<Rightarrow> error_context \<Rightarrow> bool \<Rightarrow> string option \<Rightarrow> system_time \<Rightarrow> error_log_entry" where
  "log_entry err ctx recovered action now =
     \<lparr>le_error = network_error_display err, le_context = ctx,
      le_category = error_category_of err, le_timestamp = now, le_recovered = recovered,
      le_recovery_action = action\<rparr>"

text \<open>
  \<open>log_error\<close>: count, then append to the history, dropping the oldest entry of a full one.
\<close>

definition log_error ::
  "network_error \<Rightarrow> error_context \<Rightarrow> bool \<Rightarrow> string option \<Rightarrow> system_time \<Rightarrow> error_logger \<Rightarrow> error_logger"
  where
  "log_error err ctx recovered action now l =
     (let m1 = record_error (error_category_of err) (el_metrics l);
          m2 = (if recovered then record_recovered m1 else m1);
          entry = log_entry err ctx recovered action now;
          h = (if el_max_history_size l \<le> length (el_history l)
               then tl (el_history l) else el_history l)
      in l\<lparr>el_metrics := m2, el_history := h @ [entry]\<rparr>)"

definition get_recent_errors :: "usize \<Rightarrow> error_logger \<Rightarrow> error_log_entry list" where
  "get_recent_errors count l = rev (take count (rev (el_history l)))"

definition get_errors_by_category :: "error_category \<Rightarrow> error_logger \<Rightarrow> error_log_entry list" where
  "get_errors_by_category category l = filter (\<lambda>e. le_category e = category) (el_history l)"

text \<open>The nine queries by category divide the history up, each keeping its order.\<close>

lemma history_by_category:
  "(\<Sum>c\<in>UNIV. length (get_errors_by_category c l)) = length (el_history l)"
  "subseq (get_errors_by_category c l) (el_history l)"
proof -
  have "(\<Sum>c\<in>UNIV. length (filter (\<lambda>e. le_category e = c) es)) = length es" for es :: "error_log_entry list"
  proof (induction es)
    case Nil
    then show ?case by simp
  next
    case (Cons e es)
    have "length (filter (\<lambda>d. le_category d = c) (e # es)) =
            length (filter (\<lambda>d. le_category d = c) es) + (if c = le_category e then 1 else 0)" for c
      by simp
    then show ?case
      by (simp only: sum.distrib Cons.IH) simp
  qed
  then show "(\<Sum>c\<in>UNIV. length (get_errors_by_category c l)) = length (el_history l)"
    by (simp add: get_errors_by_category_def)
  show "subseq (get_errors_by_category c l) (el_history l)"
    by (simp add: get_errors_by_category_def)
qed

definition clear_history :: "error_logger \<Rightarrow> error_logger" where
  "clear_history l = l\<lparr>el_history := []\<rparr>"

record error_summary =
  es_total_errors :: u64
  es_connection_errors :: u64
  es_message_errors :: u64
  es_peer_errors :: u64
  es_timeout_errors :: u64
  es_rate_limit_errors :: u64
  es_critical_errors :: u64
  es_recovered_errors :: u64

definition get_summary :: "error_logger \<Rightarrow> error_summary" where
  "get_summary l =
     (let m = el_metrics l
      in \<lparr>es_total_errors = em_total_errors m, es_connection_errors = em_connection_errors m,
          es_message_errors = em_message_errors m, es_peer_errors = em_peer_errors m,
          es_timeout_errors = em_timeout_errors m, es_rate_limit_errors = em_rate_limit_errors m,
          es_critical_errors = em_critical_errors m, es_recovered_errors = em_recovered_errors m\<rparr>)"

definition recovery_rate :: "error_summary \<Rightarrow> f64" where
  "recovery_rate s =
     (if es_total_errors s = 0 then 0
      else f64_mul (f64_div (f64_of_u64 (es_recovered_errors s)) (f64_of_u64 (es_total_errors s))) 100)"

section \<open>Sequences of calls\<close>

type_synonym log_call = "network_error \<times> error_context \<times> bool \<times> string option \<times> system_time"

definition log_step :: "log_call \<Rightarrow> error_logger \<Rightarrow> error_logger" where
  "log_step c l = (case c of (e, ctx, r, a, t) \<Rightarrow> log_error e ctx r a t l)"

definition call_entry :: "log_call \<Rightarrow> error_log_entry" where
  "call_entry c = (case c of (e, ctx, r, a, t) \<Rightarrow> log_entry e ctx r a t)"

definition call_category :: "log_call \<Rightarrow> error_category" where
  "call_category c = error_category_of (fst c)"

definition call_recovered :: "log_call \<Rightarrow> bool" where
  "call_recovered c = fst (snd (snd c))"

text \<open>
  The contract of a bounded log: one call appends one entry and drops the oldest one of a full
  log. Its clients learn that the log is the tail of everything that was appended.
\<close>

locale bounded_log =
  fixes push :: "'c \<Rightarrow> 'l \<Rightarrow> 'l"
    and items :: "'l \<Rightarrow> 'e list"
    and limit :: "'l \<Rightarrow> nat"
    and entry :: "'c \<Rightarrow> 'e"
  assumes items_push: "items (push c l) =
            (if limit l \<le> length (items l) then tl (items l) else items l) @ [entry c]"
    and limit_push: "limit (push c l) = limit l"
begin

lemma limit_run: "limit (fold push cs l) = limit l"
  by (induction cs arbitrary: l) (simp_all add: limit_push)

lemma length_run:
  "length (items l) \<le> max 1 (limit l) \<Longrightarrow> length (items (fold push cs l)) \<le> max 1 (limit l)"
proof (induction cs arbitrary: l)
  case Nil
  then show ?case by simp
next
  case (Cons c cs)
  have "length (items (push c l)) \<le> max 1 (limit (push c l))"
    using Cons.prems by (auto simp: items_push limit_push)
  from Cons.IH [OF this] show ?case by (simp add: limit_push)
qed

lemma items_run:
  assumes "items l = drop (length es - max 1 (limit l)) es"
  shows "items (fold push cs l) =
           drop (length (es @ map entry cs) - max 1 (limit l)) (es @ map entry cs)"
  using assms
proof (induction cs arbitrary: l es)
  case Nil
  then show ?case by simp
next
  case (Cons c cs)
  let ?n = "max 1 (limit l)"
  have "items (push c l) = drop (length (es @ [entry c]) - ?n) (es @ [entry c])"
  proof (cases "length es < ?n")
    case True
    then have len: "length es - ?n = 0" "length (es @ [entry c]) - ?n = 0" by auto
    show ?thesis
    proof (cases "limit l \<le> length es")
      case True
      with \<open>length es < ?n\<close> have "es = []" by (auto simp: max_def split: if_splits)
      then show ?thesis using Cons.prems len by (simp add: items_push)
    next
      case False
      then show ?thesis using Cons.prems len by (simp add: items_push)
    qed
  next
    case False
    then have "length (items l) = ?n" using Cons.prems by simp
    then have "items (push c l) = tl (items l) @ [entry c]"
      by (simp add: items_push)
    also have "tl (items l) = drop (Suc (length es - ?n)) es"
      using Cons.prems by (simp add: drop_Suc tl_drop)
    also have "Suc (length es - ?n) = length (es @ [entry c]) - ?n"
      using False by (simp add: Suc_diff_le)
    also have "drop (length (es @ [entry c]) - ?n) es @ [entry c] =
                 drop (length (es @ [entry c]) - ?n) (es @ [entry c])"
      using False by simp
    finally show ?thesis .
  qed
  from Cons.IH [of "push c l" "es @ [entry c]"] this
  show ?case by (simp add: limit_push)
qed

end

interpretation logbuf: bounded_log log_step el_history el_max_history_size call_entry
  by unfold_locales
     (simp_all add: log_step_def log_error_def call_entry_def Let_def split: prod.split)

section \<open>Counting\<close>

text \<open>How the counters move with one call.\<close>

definition tally :: "bool \<Rightarrow> u64" where
  "tally b = (if b then 1 else 0)"

lemma log_step_metrics [simp]:
  "em_total_errors (el_metrics (log_step c l)) = em_total_errors (el_metrics l) + 1"
  "em_connection_errors (el_metrics (log_step c l)) =
     em_connection_errors (el_metrics l) + tally (call_category c = EC_Connection)"
  "em_message_errors (el_metrics (log_step c l)) =
     em_message_errors (el_metrics l) + tally (call_category c = EC_Message)"
  "em_peer_errors (el_metrics (log_step c l)) =
     em_peer_errors (el_metrics l) + tally (call_category c = EC_Peer)"
  "em_timeout_errors (el_metrics (log_step c l)) =
     em_timeout_errors (el_metrics l) + tally (call_category c = EC_Timeout)"
  "em_rate_limit_errors (el_metrics (log_step c l)) =
     em_rate_limit_errors (el_metrics l) + tally (call_category c = EC_RateLimit)"
  "em_critical_errors (el_metrics (log_step c l)) =
     em_critical_errors (el_metrics l) + tally (call_category c = EC_Critical)"
  "em_recovered_errors (el_metrics (log_step c l)) =
     em_recovered_errors (el_metrics l) + tally (call_recovered c)"
  by (auto simp: log_step_def log_error_def record_error_def record_recovered_def Let_def
      tally_def call_category_def call_recovered_def split: prod.split error_category.split)

text \<open>A counter that moves by a tally per call holds the number of calls that hit it.\<close>

lemma counter_run:
  assumes "\<And>c l. f (log_step c l) = f l + tally (P c)"
  shows "f (fold log_step cs l) = f l + of_nat (length (filter P cs))"
  by (induction cs arbitrary: l) (simp_all add: assms tally_def)

lemma counter_run_total:
  "em_total_errors (el_metrics (fold log_step cs l)) =
     em_total_errors (el_metrics l) + of_nat (length cs)"
  using counter_run [of "\<lambda>l. em_total_errors (el_metrics l)" "\<lambda>_. True" cs l]
  by (simp add: tally_def)

lemma metrics_new [simp]:
  "em_total_errors (el_metrics (error_logger_new n)) = 0"
  "em_connection_errors (el_metrics (error_logger_new n)) = 0"
  "em_message_errors (el_metrics (error_logger_new n)) = 0"
  "em_peer_errors (el_metrics (error_logger_new n)) = 0"
  "em_timeout_errors (el_metrics (error_logger_new n)) = 0"
  "em_rate_limit_errors (el_metrics (error_logger_new n)) = 0"
  "em_critical_errors (el_metrics (error_logger_new n)) = 0"
  "em_recovered_errors (el_metrics (error_logger_new n)) = 0"
  by (simp_all add: error_logger_new_def error_metrics_default_def)

section \<open>Properties\<close>

text \<open>
  C15: the error history is exactly the most recent part of what was logged. After any sequence
  of calls to \<open>log_error\<close> on a new logger with limit \<open>n\<close>, the history is the last \<open>max 1 n\<close>
  entries, oldest first: nothing newer is lost, nothing is reordered, and the only logger that
  exceeds its limit is the one with limit 0, which keeps one entry.
\<close>

theorem log_history_is_tail:
  "el_history (fold log_step cs (error_logger_new n)) =
     drop (length cs - max 1 n) (map call_entry cs)"
proof -
  have "el_history (error_logger_new n) =
          drop (length ([] :: error_log_entry list) - max 1 (el_max_history_size (error_logger_new n))) []"
    by (simp add: error_logger_new_def)
  from logbuf.items_run [OF this, of cs] show ?thesis
    by (simp add: error_logger_new_def)
qed

text \<open>
  C39: the metrics are exact counts. After any sequence of calls on a new logger each counter is
  the number of logged errors of its category (modulo the 64-bit width), the total counts every
  call, and the recovered counter counts the calls made with \<open>recovered = true\<close>.
\<close>

theorem log_metrics_count:
  "let m = el_metrics (fold log_step cs (error_logger_new n));
       hits = (\<lambda>cat. of_nat (length (filter (\<lambda>c. call_category c = cat) cs)))
   in em_total_errors m = of_nat (length cs)
    \<and> em_connection_errors m = hits EC_Connection \<and> em_message_errors m = hits EC_Message
    \<and> em_peer_errors m = hits EC_Peer \<and> em_timeout_errors m = hits EC_Timeout
    \<and> em_rate_limit_errors m = hits EC_RateLimit \<and> em_critical_errors m = hits EC_Critical
    \<and> em_recovered_errors m = of_nat (length (filter call_recovered cs))"
  by (simp add: Let_def counter_run_total
      counter_run [of "\<lambda>l. em_connection_errors (el_metrics l)" "\<lambda>c. call_category c = EC_Connection"]
      counter_run [of "\<lambda>l. em_message_errors (el_metrics l)" "\<lambda>c. call_category c = EC_Message"]
      counter_run [of "\<lambda>l. em_peer_errors (el_metrics l)" "\<lambda>c. call_category c = EC_Peer"]
      counter_run [of "\<lambda>l. em_timeout_errors (el_metrics l)" "\<lambda>c. call_category c = EC_Timeout"]
      counter_run [of "\<lambda>l. em_rate_limit_errors (el_metrics l)" "\<lambda>c. call_category c = EC_RateLimit"]
      counter_run [of "\<lambda>l. em_critical_errors (el_metrics l)" "\<lambda>c. call_category c = EC_Critical"]
      counter_run [of "\<lambda>l. em_recovered_errors (el_metrics l)" call_recovered])

lemma recent_errors_suffix:
  "get_recent_errors k l = drop (length (el_history l) - k) (el_history l)"
  by (simp add: get_recent_errors_def take_rev)

lemma f64_percentage_le_100:
  assumes "m \<le> n" and "0 < n"
  shows "f64_mul (f64_div (f64_of_nat m) (f64_of_nat n)) 100 \<le> 100"
proof -
  have "f64_div (f64_of_nat m) (f64_of_nat n) * 100 \<le> of_nat 100"
    using f64_ratio_le_1 [OF assms] by simp
  then have "f64_mul (f64_div (f64_of_nat m) (f64_of_nat n)) 100 \<le> rnd64 (of_nat 100)"
    unfolding f64_mul_def by (rule rnd64_mono)
  also have "\<dots> = 100" by (subst rnd64_of_nat) simp_all
  finally show ?thesis .
qed

lemma summary_recovered_le_total:
  assumes "length cs < 2 ^ 64"
  shows "unat (es_recovered_errors (get_summary (fold log_step cs (error_logger_new n))))
           \<le> unat (es_total_errors (get_summary (fold log_step cs (error_logger_new n))))"
proof -
  have "unat (word_of_nat (length (filter call_recovered cs)) :: u64) \<le> length cs"
    using unat_of_nat_le length_filter_le by (rule order_trans)
  then show ?thesis
    using assms
    by (simp add: get_summary_def Let_def counter_run_total unat_of_nat_small
        counter_run [of "\<lambda>l. em_recovered_errors (el_metrics l)" call_recovered])
qed

text \<open>
  The reported recovery rate is a percentage. In every summary of a logger that has handled
  fewer than \<open>2^64\<close> errors, \<open>recovery_rate\<close> lies between 0 and 100, the rounding of the two
  floating-point operations included.
\<close>

lemma recovery_rate_percentage:
  assumes "length cs < 2 ^ 64"
  shows "0 \<le> recovery_rate (get_summary (fold log_step cs (error_logger_new n)))
       \<and> recovery_rate (get_summary (fold log_step cs (error_logger_new n))) \<le> 100"
proof -
  define s where "s = get_summary (fold log_step cs (error_logger_new n))"
  have le: "unat (es_recovered_errors s) \<le> unat (es_total_errors s)"
    unfolding s_def by (rule summary_recovered_le_total [OF assms])
  show ?thesis
    unfolding s_def [symmetric] using f64_percentage_le_100 [OF le]
    by (auto simp: recovery_rate_def f64_of_u64_def f64_mul_def unat_gt_0)
qed

lemma recovery_rate_percentage_witness:
  "recovery_rate (get_summary (fold log_step
     [(PeerDisconnected ''p'', error_context_new ''op'' 0, True, None, 0),
      (IoError ''x'', error_context_new ''op'' 0, False, None, 0)] (error_logger_new 5))) \<le> 100"
  using recovery_rate_percentage
    [of "[(PeerDisconnected ''p'', error_context_new ''op'' 0, True, None, 0),
      (IoError ''x'', error_context_new ''op'' 0, False, None, 0)]" 5]
  by simp

end
