(* ===== verification/Error_Recovery.thy ===== *)
theory Error_Recovery
  imports Errors Float64
begin

text \<open>
  Recovery strategies (\<open>src/error_recovery.rs\<close>): the exponential backoff with jitter, the
  fixed-window rate limiter and the \<open>ErrorRecoveryManager\<close> that keeps one backoff, one limiter
  and one error count per peer.

  The remainder \<open>nanos % jitter\<close> of \<open>next_backoff\<close> panics when the jitter is zero; the result
  type \<open>option\<close> has \<open>None\<close> for that panic.
\<close>

section \<open>Exponential backoff\<close>

record exponential_backoff =
  eb_initial_delay_ms :: u64
  eb_max_delay_ms :: u64
  eb_attempt :: u32
  eb_last_backoff :: "instant option"

definition backoff_new :: "u64 \<Rightarrow> u64 \<Rightarrow> exponential_backoff" where
  "backoff_new initial_delay_ms max_delay_ms =
     \<lparr>eb_initial_delay_ms = initial_delay_ms, eb_max_delay_ms = max_delay_ms, eb_attempt = 0,
      eb_last_backoff = None\<rparr>"

definition backoff_delay_ms :: "exponential_backoff \<Rightarrow> u64" where
  "backoff_delay_ms b =
     min (sat_mul (eb_initial_delay_ms b) (sat_pow 2 (unat (eb_attempt b)))) (eb_max_delay_ms b)"

definition backoff_jitter :: "u64 \<Rightarrow> u64" where
  "backoff_jitter delay_ms = f64_to_u64 (f64_mul (f64_of_u64 delay_ms) f64_tenth)"

text \<open>
  \<open>nanos\<close> is \<open>SystemTime::now()\<close> since the epoch in nanoseconds, \<open>now\<close> the \<open>Instant\<close> stored
  as the time of the backoff.
\<close>

definition next_backoff ::
  "nat \<Rightarrow> instant \<Rightarrow> exponential_backoff \<Rightarrow> (duration \<times> exponential_backoff) option" where
  "next_backoff nanos now b =
     (let delay_ms = backoff_delay_ms b;
          jitter = backoff_jitter delay_ms
      in if jitter = 0 then None
         else let jittered_delay =
                    sat_add (sat_sub delay_ms (jitter div 2)) (word_of_nat nanos mod jitter)
              in Some (duration_from_millis (unat jittered_delay),
                       b\<lparr>eb_attempt := sat_add (eb_attempt b) 1, eb_last_backoff := Some now\<rparr>))"

definition backoff_reset :: "exponential_backoff \<Rightarrow> exponential_backoff" where
  "backoff_reset b = b\<lparr>eb_attempt := 0, eb_last_backoff := None\<rparr>"

definition is_ready_to_retry :: "instant \<Rightarrow> exponential_backoff \<Rightarrow> bool" where
  "is_ready_to_retry now b =
     (case eb_last_backoff b of
        None \<Rightarrow> True
      | Some t0 \<Rightarrow>
          duration_from_millis (unat (backoff_delay_ms b)) \<le> duration_since now t0)"

text \<open>The saturating operations never show: the delay is the capped power.\<close>

lemma unat_backoff_delay:
  "unat (backoff_delay_ms b) =
     min (unat (eb_initial_delay_ms b) * 2 ^ unat (eb_attempt b)) (unat (eb_max_delay_ms b))"
proof -
  let ?i = "unat (eb_initial_delay_ms b)" and ?p = "2 ^ unat (eb_attempt b) :: nat"
  let ?M = "2 ^ 64 - 1 :: nat" and ?m = "unat (eb_max_delay_ms b)"
  have m: "?m \<le> ?M"
    using unat_less_pow [of "eb_max_delay_ms b"] by simp
  have "unat (backoff_delay_ms b) = min (min (?i * min ?p ?M) ?M) ?m"
    by (simp add: backoff_delay_ms_def machine_simps)
  also have "\<dots> = min (?i * ?p) ?m"
  proof (cases "?i = 0 \<or> ?p \<le> ?M")
    case True
    then show ?thesis using m by (auto simp: min_def)
  next
    case False
    then have "?M \<le> ?i * ?M" and "?M \<le> ?i * ?p"
      using mult_le_mono [of 1 ?i ?M ?M] mult_le_mono [of 1 ?i ?M ?p] by auto
    then have "?m \<le> ?i * min ?p ?M" and "?m \<le> ?i * ?p"
      using m False by (auto simp: min_def)
    then show ?thesis using m by (simp add: min_def)
  qed
  finally show ?thesis .
qed

lemma unat_backoff_jitter:
  assumes "unat d \<le> 2 ^ 49"
  shows "unat (backoff_jitter d) = unat d div 10"
proof -
  have "unat d div 10 \<le> 2 ^ 64 - 1"
    using assms by simp
  then show ?thesis
    using floor_f64_tenth [OF assms]
    by (simp add: backoff_jitter_def f64_to_u64_def f64_of_u64_def machine_simps)
qed

text \<open>Without a bound: the jitter is a tenth up to the rounding of the product.\<close>

lemma unat_backoff_jitter_close:
  "unat (backoff_jitter d) \<le> unat d div 10 + unat d div 2 ^ 54 + 1"
  "unat d div 10 \<le> unat (backoff_jitter d) + unat d div 2 ^ 54 + 1"
proof -
  let ?f = "\<lfloor>f64_mul (f64_of_nat (unat d)) f64_tenth\<rfloor>"
  have j: "unat (backoff_jitter d) = min (nat ?f) (2 ^ 64 - 1)"
    by (simp add: backoff_jitter_def f64_to_u64_def f64_of_u64_def machine_simps)
  have "unat d < 2 ^ 64" using unat_less_pow [of d] by simp
  then show "unat (backoff_jitter d) \<le> unat d div 10 + unat d div 2 ^ 54 + 1"
    "unat d div 10 \<le> unat (backoff_jitter d) + unat d div 2 ^ 54 + 1"
    using floor_f64_tenth_close [of "unat d"] unfolding j by linarith+
qed

lemma backoff_jitter_0_iff: "backoff_jitter d = 0 \<longleftrightarrow> unat d < 10"
proof (cases "unat d < 10")
  case True
  then have "unat (backoff_jitter d) = 0"
    by (subst unat_backoff_jitter) simp_all
  then show ?thesis using True by (simp add: unat_eq_0)
next
  case False
  then have "1 \<le> \<lfloor>f64_mul (f64_of_nat (unat d)) f64_tenth\<rfloor>"
    by (intro floor_f64_tenth_pos) simp
  then have "0 < unat (backoff_jitter d)"
    by (simp add: backoff_jitter_def f64_to_u64_def f64_of_u64_def machine_simps)
  then show ?thesis using False by (simp add: unat_gt_0)
qed

section \<open>Fixed-window rate limiter\<close>

record fixed_window_limiter =
  fw_max_messages_per_sec :: u32
  fw_message_count :: u32
  fw_last_reset :: instant
  fw_throttle_duration :: duration

definition fixed_window_new :: "u32 \<Rightarrow> duration \<Rightarrow> instant \<Rightarrow> fixed_window_limiter" where
  "fixed_window_new max_messages_per_sec throttle_duration now =
     \<lparr>fw_max_messages_per_sec = max_messages_per_sec, fw_message_count = 0, fw_last_reset = now,
      fw_throttle_duration = throttle_duration\<rparr>"

definition allow_message :: "instant \<Rightarrow> fixed_window_limiter \<Rightarrow> bool \<times> fixed_window_limiter" where
  "allow_message now r =
     (let r1 = (if duration_from_secs 1 \<le> duration_since now (fw_last_reset r)
                then r\<lparr>fw_message_count := 0, fw_last_reset := now\<rparr> else r);
          current_count = fw_message_count r1
      in (current_count < fw_max_messages_per_sec r1,
          r1\<lparr>fw_message_count := current_count + 1\<rparr>))"

definition fixed_window_reset :: "instant \<Rightarrow> fixed_window_limiter \<Rightarrow> fixed_window_limiter" where
  "fixed_window_reset now r = r\<lparr>fw_message_count := 0, fw_last_reset := now\<rparr>"

section \<open>The recovery manager\<close>

datatype recovery_action =
    RA_ScheduleReconnect duration
  | RA_Throttle duration
  | RA_Reconnect
  | RA_Retry
  | RA_WaitAndRetry duration
  | RA_Alert
  | RA_FailStartup
  | RA_Ban
  | RA_Log

record recovery_manager =
  rm_backoff_states :: "(string, exponential_backoff) hmap"
  rm_rate_limiters :: "(string, fixed_window_limiter) hmap"
  rm_error_counts :: "(string, u32) hmap"
  rm_max_errors_before_ban :: u32

definition recovery_manager_new :: "u32 \<Rightarrow> recovery_manager" where
  "recovery_manager_new max_errors_before_ban =
     \<lparr>rm_backoff_states = [], rm_rate_limiters = [], rm_error_counts = [],
      rm_max_errors_before_ban = max_errors_before_ban\<rparr>"

text \<open>The result of an operation that may panic and that returns \<open>Result<RecoveryAction>\<close>.\<close>

type_synonym recovery_result = "((network_error + recovery_action) \<times> recovery_manager) option"

definition handle_exponential_backoff ::
  "nat \<Rightarrow> instant \<Rightarrow> string \<Rightarrow> recovery_manager \<Rightarrow> recovery_result" where
  "handle_exponential_backoff nanos now peer m =
     (let backoff = hm_entry peer (backoff_new 1000 300000) (rm_backoff_states m)
      in case next_backoff nanos now backoff of
           None \<Rightarrow> None
         | Some (delay, backoff') \<Rightarrow>
             Some (Inr (RA_ScheduleReconnect delay),
                   m\<lparr>rm_backoff_states := hm_put peer backoff' (rm_backoff_states m)\<rparr>))"

definition handle_throttle :: "instant \<Rightarrow> string \<Rightarrow> recovery_manager \<Rightarrow> recovery_result" where
  "handle_throttle now peer m =
     (let limiter = hm_entry peer (fixed_window_new 100 (duration_from_secs 60) now)
                      (rm_rate_limiters m)
      in Some (Inr (RA_Throttle (fw_throttle_duration limiter)),
               m\<lparr>rm_rate_limiters := hm_put peer limiter (rm_rate_limiters m)\<rparr>))"

definition handle_reconnect :: "string \<Rightarrow> recovery_manager \<Rightarrow> recovery_result" where
  "handle_reconnect peer m =
     (let count = sat_add (hm_entry peer 0 (rm_error_counts m)) 1;
          m' = m\<lparr>rm_error_counts := hm_put peer count (rm_error_counts m)\<rparr>
      in if rm_max_errors_before_ban m < count then Some (Inr RA_Ban, m')
         else Some (Inr RA_Reconnect, m'))"

definition handle_retry :: "recovery_manager \<Rightarrow> recovery_result" where
  "handle_retry m = Some (Inr RA_Retry, m)"

definition handle_wait_and_retry :: "recovery_manager \<Rightarrow> recovery_result" where
  "handle_wait_and_retry m = Some (Inr (RA_WaitAndRetry (duration_from_secs 5)), m)"

definition handle_alert :: "recovery_manager \<Rightarrow> recovery_result" where
  "handle_alert m = Some (Inr RA_Alert, m)"

definition handle_fail_startup :: "recovery_manager \<Rightarrow> recovery_result" where
  "handle_fail_startup m = Some (Inr RA_FailStartup, m)"

definition handle_log :: "recovery_manager \<Rightarrow> recovery_result" where
  "handle_log m = Some (Inr RA_Log, m)"

definition recovery_handle_error ::
  "nat \<Rightarrow> instant \<Rightarrow> string \<Rightarrow> network_error \<Rightarrow> recovery_manager \<Rightarrow> recovery_result" where
  "recovery_handle_error nanos now peer err m =
     (case recovery_strategy_of err of
        RS_ExponentialBackoff \<Rightarrow> handle_exponential_backoff nanos now peer m
      | RS_Throttle \<Rightarrow> handle_throttle now peer m
      | RS_Reconnect \<Rightarrow> handle_reconnect peer m
      | RS_Retry \<Rightarrow> handle_retry m
      | RS_WaitAndRetry \<Rightarrow> handle_wait_and_retry m
      | RS_Alert \<Rightarrow> handle_alert m
      | RS_FailStartup \<Rightarrow> handle_fail_startup m
      | RS_Log \<Rightarrow> handle_log m)"

definition reset_error_count :: "string \<Rightarrow> recovery_manager \<Rightarrow> recovery_manager" where
  "reset_error_count peer m =
     m\<lparr>rm_error_counts := hm_del peer (rm_error_counts m),
       rm_backoff_states := hm_modify peer backoff_reset (rm_backoff_states m)\<rparr>"

definition get_error_count :: "string \<Rightarrow> recovery_manager \<Rightarrow> u32" where
  "get_error_count peer m = hm_entry peer 0 (rm_error_counts m)"

definition should_ban_peer :: "string \<Rightarrow> recovery_manager \<Rightarrow> bool" where
  "should_ban_peer peer m = (rm_max_errors_before_ban m < get_error_count peer m)"

lemmas recovery_handler_defs =
  handle_exponential_backoff_def handle_throttle_def handle_reconnect_def handle_retry_def
  handle_wait_and_retry_def handle_alert_def handle_fail_startup_def handle_log_def

section \<open>Every backoff the manager stores is the 1 s to 5 min one\<close>

definition standard_backoff :: "exponential_backoff \<Rightarrow> bool" where
  "standard_backoff b \<longleftrightarrow> eb_initial_delay_ms b = 1000 \<and> eb_max_delay_ms b = 300000"

definition manager_ok :: "recovery_manager \<Rightarrow> bool" where
  "manager_ok m \<longleftrightarrow> (\<forall>p b. hm_get (rm_backoff_states m) p = Some b \<longrightarrow> standard_backoff b)"

lemma standard_backoff_new: "standard_backoff (backoff_new 1000 300000)"
  by (simp add: standard_backoff_def backoff_new_def)

lemma standard_delay_bounds:
  assumes "standard_backoff b"
  shows "1000 \<le> unat (backoff_delay_ms b)" and "unat (backoff_delay_ms b) \<le> 300000"
proof -
  have "unat (backoff_delay_ms b) = min (1000 * 2 ^ unat (eb_attempt b)) 300000"
    using assms by (simp add: unat_backoff_delay standard_backoff_def)
  moreover have "(1000 :: nat) \<le> 1000 * 2 ^ unat (eb_attempt b)"
    by simp
  ultimately show "1000 \<le> unat (backoff_delay_ms b)" and "unat (backoff_delay_ms b) \<le> 300000"
    by simp_all
qed

lemma next_backoff_Some:
  assumes "next_backoff nanos now b = Some (d, b')"
  shows "eb_initial_delay_ms b' = eb_initial_delay_ms b"
    and "eb_max_delay_ms b' = eb_max_delay_ms b"
    and "eb_attempt b' = sat_add (eb_attempt b) 1"
    and "eb_last_backoff b' = Some now"
  using assms by (auto simp: next_backoff_def Let_def split: if_splits)

lemma next_backoff_None: "next_backoff nanos now b = None \<longleftrightarrow> unat (backoff_delay_ms b) < 10"
  by (auto simp: next_backoff_def Let_def backoff_jitter_0_iff)

lemma standard_next_backoff:
  assumes "standard_backoff b"
  obtains d b' where "next_backoff nanos now b = Some (d, b')"
proof -
  have "next_backoff nanos now b \<noteq> None"
    using standard_delay_bounds(1) [OF assms] by (simp add: next_backoff_None)
  then show thesis using that by fastforce
qed

text \<open>The delay handed out, by the jitter \<open>j\<close>: from \<open>j / 2\<close> below the base to as much above it.\<close>

lemma next_backoff_delay:
  assumes "next_backoff nanos now b = Some (d, b')"
  shows "unat (backoff_delay_ms b) - unat (backoff_jitter (backoff_delay_ms b)) div 2 \<le> as_millis d"
    and "as_millis d < unat (backoff_delay_ms b) - unat (backoff_jitter (backoff_delay_ms b)) div 2
                         + unat (backoff_jitter (backoff_delay_ms b))"
proof -
  let ?base = "unat (backoff_delay_ms b)" and ?j = "backoff_jitter (backoff_delay_ms b)"
  from assms have jpos: "?j \<noteq> 0"
    and d: "d = duration_from_millis (unat (sat_add (sat_sub (backoff_delay_ms b) (?j div 2))
                  (word_of_nat nanos mod ?j)))"
    by (auto simp: next_backoff_def Let_def split: if_splits)
  let ?r = "unat (word_of_nat nanos mod ?j :: u64)"
  have r: "?r < unat ?j"
    using jpos by (simp add: unat_mod unat_gt_0)
  have "as_millis d = min (?base - unat ?j div 2 + ?r) (2 ^ 64 - 1)"
    by (simp add: d machine_simps unat_div)
  then show "?base - unat ?j div 2 \<le> as_millis d" and "as_millis d < ?base - unat ?j div 2 + unat ?j"
    using r unat_less_pow [of "backoff_delay_ms b"] by simp_all
qed

lemma manager_ok_new: "manager_ok (recovery_manager_new n)"
  by (simp add: manager_ok_def recovery_manager_new_def)

lemma manager_entry_standard:
  "manager_ok m \<Longrightarrow> standard_backoff (hm_entry p (backoff_new 1000 300000) (rm_backoff_states m))"
  by (auto simp: manager_ok_def hm_entry_def standard_backoff_new split: option.split)

lemma exponential_backoff_total:
  assumes "manager_ok m"
  obtains d m' where "handle_exponential_backoff nanos now p m = Some (Inr (RA_ScheduleReconnect d), m')"
    and "manager_ok m'" and "rm_error_counts m' = rm_error_counts m"
    and "rm_max_errors_before_ban m' = rm_max_errors_before_ban m"
proof -
  let ?b = "hm_entry p (backoff_new 1000 300000) (rm_backoff_states m)"
  have std: "standard_backoff ?b" by (rule manager_entry_standard [OF assms])
  then obtain d b' where nb: "next_backoff nanos now ?b = Some (d, b')"
    by (rule standard_next_backoff)
  then have "standard_backoff b'"
    using std next_backoff_Some(1,2) [OF nb] by (simp add: standard_backoff_def)
  then have "manager_ok (m\<lparr>rm_backoff_states := hm_put p b' (rm_backoff_states m)\<rparr>)"
    using assms by (simp add: manager_ok_def hm_simps)
  with nb show thesis
    by (intro that [of d "m\<lparr>rm_backoff_states := hm_put p b' (rm_backoff_states m)\<rparr>"])
       (simp_all add: handle_exponential_backoff_def)
qed

text \<open>The count of a peer moves only with a \<open>Reconnect\<close> strategy.\<close>

definition counts_error :: "string \<Rightarrow> string \<Rightarrow> network_error \<Rightarrow> bool" where
  "counts_error p q e \<longleftrightarrow> q = p \<and> recovery_strategy_of e = RS_Reconnect"

lemma handle_reconnect_counts:
  assumes "handle_reconnect q m = Some (r, m')"
  shows "get_error_count p m' = (if q = p then sat_add (get_error_count p m) 1 else get_error_count p m)"
    and "rm_max_errors_before_ban m' = rm_max_errors_before_ban m"
    and "rm_backoff_states m' = rm_backoff_states m"
    and "r = Inr (if should_ban_peer q m' then RA_Ban else RA_Reconnect)"
  using assms
  by (auto simp: handle_reconnect_def get_error_count_def should_ban_peer_def hm_entry_def Let_def
      hm_simps split: if_splits)

lemma recovery_handle_error_total:
  assumes ok: "manager_ok m"
  obtains a m' where "recovery_handle_error nanos now q err m = Some (Inr a, m')"
    and "manager_ok m'"
    and "rm_max_errors_before_ban m' = rm_max_errors_before_ban m"
    and "get_error_count p m' =
           (if counts_error p q err then sat_add (get_error_count p m) 1 else get_error_count p m)"
    and "recovery_strategy_of err = RS_Reconnect \<Longrightarrow>
           a = (if should_ban_peer q m' then RA_Ban else RA_Reconnect)"
proof (cases "recovery_strategy_of err")
  case RS_ExponentialBackoff
  obtain d m' where "handle_exponential_backoff nanos now q m = Some (Inr (RA_ScheduleReconnect d), m')"
    and "manager_ok m'" and "rm_error_counts m' = rm_error_counts m"
    and "rm_max_errors_before_ban m' = rm_max_errors_before_ban m"
    using exponential_backoff_total [OF ok] by blast
  with RS_ExponentialBackoff show thesis
    by (intro that [of "RA_ScheduleReconnect d" m'])
       (simp_all add: recovery_handle_error_def counts_error_def get_error_count_def)
next
  case RS_Reconnect
  obtain a m' where r: "handle_reconnect q m = Some (Inr a, m')"
    by (cases "rm_max_errors_before_ban m < sat_add (hm_entry q 0 (rm_error_counts m)) 1")
       (auto simp: handle_reconnect_def Let_def)
  have "manager_ok m'"
    using ok handle_reconnect_counts(3) [OF r] by (simp add: manager_ok_def)
  then show thesis
    using that [of a m'] r RS_Reconnect handle_reconnect_counts [OF r]
    by (auto simp: recovery_handle_error_def counts_error_def)
qed (use ok that in \<open>auto simp: recovery_handle_error_def recovery_handler_defs counts_error_def
       manager_ok_def get_error_count_def Let_def\<close>)

section \<open>Sequences of calls to the limiter\<close>

fun limiter_run :: "instant list \<Rightarrow> fixed_window_limiter \<Rightarrow> bool list \<times> fixed_window_limiter" where
  "limiter_run [] r = ([], r)"
| "limiter_run (t # ts) r =
     (let (b, r') = allow_message t r; (bs, r'') = limiter_run ts r' in (b # bs, r''))"

lemma limiter_run_append:
  "limiter_run (ts @ us) r =
     (let (bs, r') = limiter_run ts r; (cs, r'') = limiter_run us r' in (bs @ cs, r''))"
  by (induction ts arbitrary: r) (auto simp: Let_def split: prod.splits)

text \<open>Within a window the calls are numbered, modulo the width of the counter.\<close>

lemma limiter_run_window:
  assumes "\<forall>t\<in>set ts. t - fw_last_reset r < 1000000000"
  shows "limiter_run ts r =
     (map (\<lambda>k. fw_message_count r + word_of_nat k < fw_max_messages_per_sec r) [0..<length ts],
      r\<lparr>fw_message_count := fw_message_count r + word_of_nat (length ts)\<rparr>)"
  using assms
proof (induction ts arbitrary: r)
  case Nil
  then show ?case by simp
next
  case (Cons t ts)
  let ?r' = "r\<lparr>fw_message_count := fw_message_count r + 1\<rparr>"
  have step: "allow_message t r = (fw_message_count r < fw_max_messages_per_sec r, ?r')"
    using Cons.prems by (simp add: allow_message_def duration_simps Let_def)
  have tail: "limiter_run ts ?r' =
     (map (\<lambda>k. fw_message_count r + 1 + word_of_nat k < fw_max_messages_per_sec r) [0..<length ts],
      r\<lparr>fw_message_count := fw_message_count r + 1 + word_of_nat (length ts)\<rparr>)"
    using Cons.IH [of ?r'] Cons.prems by simp
  show ?case
    by (simp add: step tail map_upt_Suc add.assoc del: upt_Suc)
qed

lemma limiter_run_rollover:
  assumes "1000000000 \<le> t - fw_last_reset r"
  shows "limiter_run (t # ts) r = limiter_run (t # ts) (r\<lparr>fw_message_count := 0, fw_last_reset := t\<rparr>)"
  using assms by (simp add: allow_message_def duration_simps Let_def)

lemma limiter_run_full_window:
  assumes "\<forall>t\<in>set ts. t - fw_last_reset r < 1000000000" and "fw_message_count r = 0"
    and "length ts \<le> unat (fw_max_messages_per_sec r)"
  shows "limiter_run ts r = (replicate (length ts) True, r\<lparr>fw_message_count := word_of_nat (length ts)\<rparr>)"
proof -
  have "map (\<lambda>k. fw_message_count r + word_of_nat k < fw_max_messages_per_sec r) [0..<length ts]
          = map (\<lambda>_. True) [0..<length ts]"
  proof (rule map_cong [OF refl])
    fix k assume "k \<in> set [0..<length ts]"
    then have "k < unat (fw_max_messages_per_sec r)" using assms(3) by simp
    then have "unat (word_of_nat k :: u32) < unat (fw_max_messages_per_sec r)"
      using unat_of_nat_le [of k, where ?'a = 32] by (rule order_le_less_trans [rotated])
    then show "(fw_message_count r + word_of_nat k < fw_max_messages_per_sec r) = True"
      using assms(2) by (simp add: word_less_nat_alt)
  qed
  then show ?thesis
    using limiter_run_window [OF assms(1)] assms(2) by (simp add: map_replicate_const)
qed

section \<open>Sequences of errors\<close>

type_synonym recovery_call = "nat \<times> instant \<times> string \<times> network_error"

text \<open>A run stops at a panic.\<close>

fun recovery_run :: "recovery_call list \<Rightarrow> recovery_manager \<Rightarrow> (recovery_action list \<times> recovery_manager) option"
  where
  "recovery_run [] m = Some ([], m)"
| "recovery_run ((nanos, now, peer, err) # cs) m =
     (case recovery_handle_error nanos now peer err m of
        Some (Inr a, m') \<Rightarrow> map_option (\<lambda>(as, m''). (a # as, m'')) (recovery_run cs m')
      | _ \<Rightarrow> None)"

definition call_counts :: "string \<Rightarrow> recovery_call \<Rightarrow> bool" where
  "call_counts p c = (case c of (nanos, now, q, err) \<Rightarrow> counts_error p q err)"

lemma recovery_run_total:
  assumes "manager_ok m"
  shows "\<exists>as m'. recovery_run cs m = Some (as, m') \<and> manager_ok m' \<and> length as = length cs
    \<and> rm_max_errors_before_ban m' = rm_max_errors_before_ban m
    \<and> unat (get_error_count p m') =
        min (unat (get_error_count p m) + length (filter (call_counts p) cs)) (2 ^ 32 - 1)"
  using assms
proof (induction cs arbitrary: m)
  case Nil
  have "unat (get_error_count p m) \<le> 2 ^ 32 - 1"
    using unat_less_pow [of "get_error_count p m"] by simp
  with Nil show ?case by simp
next
  case (Cons c cs)
  obtain nanos now q err where c: "c = (nanos, now, q, err)" by (cases c)
  obtain a m1 where 1: "recovery_handle_error nanos now q err m = Some (Inr a, m1)"
    and ok: "manager_ok m1" and mx: "rm_max_errors_before_ban m1 = rm_max_errors_before_ban m"
    and cnt: "get_error_count p m1 =
       (if counts_error p q err then sat_add (get_error_count p m) 1 else get_error_count p m)"
    using recovery_handle_error_total [OF Cons.prems] by metis
  from Cons.IH [OF ok] 1 mx show ?case
    by (auto simp: c cnt call_counts_def machine_simps)
qed

section \<open>Properties\<close>

text \<open>
  C20: the delay of the next retry, for every configuration. When \<open>next_backoff\<close> returns, the delay
  (in milliseconds) lies in the half-open range \<open>[base - j/2, base - j/2 + j)\<close> around the base delay
  \<open>min (initial * 2^attempt) max\<close>, where the jitter \<open>j\<close>, computed by the code in floating point, is
  \<open>base / 10\<close> exactly for a base up to \<open>2^49\<close> milliseconds and within \<open>base / 2^54 + 1\<close> of it
  above; the attempt counter has advanced by one (saturating) and the time is recorded. The
  documented jitter is plus or minus 10 percent; the code's is plus or minus 5 percent, and the
  delay can exceed the maximum by it.
\<close>

theorem next_backoff_range:
  assumes "next_backoff nanos now b = Some (d, b')"
  shows "let base = min (unat (eb_initial_delay_ms b) * 2 ^ unat (eb_attempt b)) (unat (eb_max_delay_ms b))
         in (\<exists>j. base - j div 2 \<le> as_millis d \<and> as_millis d < base - j div 2 + j
               \<and> (base \<le> 2 ^ 49 \<longrightarrow> j = base div 10)
               \<and> j \<le> base div 10 + base div 2 ^ 54 + 1 \<and> base div 10 \<le> j + base div 2 ^ 54 + 1)
          \<and> unat (eb_attempt b') = min (unat (eb_attempt b) + 1) (2 ^ 32 - 1)
          \<and> eb_last_backoff b' = Some now"
proof -
  let ?base = "backoff_delay_ms b"
  have "unat (eb_attempt b') = min (unat (eb_attempt b) + 1) (2 ^ 32 - 1) \<and> eb_last_backoff b' = Some now"
    using next_backoff_Some(3,4) [OF assms] by (simp add: unat_sat_add)
  then show ?thesis
    unfolding Let_def unat_backoff_delay [symmetric]
    using next_backoff_delay [OF assms] unat_backoff_jitter [of ?base] unat_backoff_jitter_close [of ?base]
    by (intro conjI exI [of _ "unat (backoff_jitter ?base)"]) blast+
qed

theorem next_backoff_range_witness:
  "\<exists>d b'. next_backoff 57 9 (backoff_new 1000 300000) = Some (d, b')
     \<and> 950 \<le> as_millis d \<and> as_millis d < 1050"
proof -
  obtain d b' where nb: "next_backoff 57 9 (backoff_new 1000 300000) = Some (d, b')"
    by (rule standard_next_backoff [OF standard_backoff_new])
  show ?thesis
    using next_backoff_range [OF nb] nb by (auto simp: backoff_new_def Let_def)
qed

text \<open>
  C37: when the backoff panics. \<open>next_backoff\<close> fails (division by zero in the jitter's remainder)
  exactly when the base delay is below 10 milliseconds, so a backoff configured with a zero or
  single-digit initial or maximal delay brings the caller down.
\<close>

theorem next_backoff_panics_iff:
  "next_backoff nanos now b = None \<longleftrightarrow>
     min (unat (eb_initial_delay_ms b) * 2 ^ unat (eb_attempt b)) (unat (eb_max_delay_ms b)) < 10"
  by (simp only: next_backoff_None unat_backoff_delay)

text \<open>
  C25: the recovery manager never fails. From a new manager, any sequence of errors of any peers
  is handled without a panic and without an \<open>Err\<close>, one action per error; the error count of a
  peer is the number of its \<open>PeerDisconnected\<close> errors, saturating at \<open>u32::MAX\<close>.
\<close>

theorem recovery_manager_total:
  "\<exists>as m. recovery_run cs (recovery_manager_new n) = Some (as, m) \<and> length as = length cs
     \<and> unat (get_error_count p m) = min (length (filter (call_counts p) cs)) (2 ^ 32 - 1)"
  using recovery_run_total [OF manager_ok_new, of cs n p]
  by (auto simp: get_error_count_def recovery_manager_new_def hm_entry_def)

text \<open>
  C31: the ban threshold. After any history of errors on a new manager, the next
  \<open>PeerDisconnected\<close> error of a peer is answered with \<open>Ban\<close> exactly when the number of such
  errors of this peer, the new one included, exceeds \<open>max_errors_before_ban\<close>, and with
  \<open>Reconnect\<close> otherwise; \<open>should_ban_peer\<close> then agrees with the action.
\<close>

theorem reconnect_bans_above_threshold:
  assumes "recovery_run cs (recovery_manager_new n) = Some (as, m)"
    and "recovery_handle_error nanos now p (PeerDisconnected msg) m = Some (r, m')"
  shows "r = Inr (if unat n < min (Suc (length (filter (call_counts p) cs))) (2 ^ 32 - 1)
                  then RA_Ban else RA_Reconnect)
       \<and> (should_ban_peer p m' \<longleftrightarrow> r = Inr RA_Ban)"
proof -
  have ok: "manager_ok m" and mx: "rm_max_errors_before_ban m = n"
    and cnt: "unat (get_error_count p m) = min (length (filter (call_counts p) cs)) (2 ^ 32 - 1)"
    using recovery_run_total [OF manager_ok_new, of cs n p] assms(1)
    by (auto simp: get_error_count_def recovery_manager_new_def hm_entry_def)
  have r: "handle_reconnect p m = Some (r, m')"
    using assms(2) by (simp add: recovery_handle_error_def recovery_strategy_of_def)
  have "unat (get_error_count p m') = min (Suc (length (filter (call_counts p) cs))) (2 ^ 32 - 1)"
    using handle_reconnect_counts(1) [OF r, of p] cnt by (auto simp: machine_simps)
  then show ?thesis
    using handle_reconnect_counts(2,4) [OF r] mx
    by (simp add: should_ban_peer_def word_less_nat_alt)
qed

theorem reconnect_bans_above_threshold_witness:
  "recovery_handle_error 0 0 ''p'' (PeerDisconnected ''gone'')
      (recovery_manager_new 1\<lparr>rm_error_counts := [(''p'', 1)]\<rparr>) =
     Some (Inr RA_Ban, recovery_manager_new 1\<lparr>rm_error_counts := [(''p'', 2)]\<rparr>)"
proof -
  let ?m = "recovery_manager_new 1\<lparr>rm_error_counts := [(''p'', 1)]\<rparr>"
  let ?m' = "recovery_manager_new 1\<lparr>rm_error_counts := [(''p'', 2)]\<rparr>"
  let ?cs = "[(0, 0, ''p'', PeerDisconnected ''gone'')] :: recovery_call list"
  have run: "recovery_run ?cs (recovery_manager_new 1) = Some ([RA_Reconnect], ?m)"
    by (simp add: recovery_handle_error_def recovery_strategy_of_def handle_reconnect_def
        recovery_manager_new_def hm_entry_def sat_add_def sat_of_nat_def)
  have step: "recovery_handle_error 0 0 ''p'' (PeerDisconnected ''gone'') ?m = Some (Inr RA_Ban, ?m')"
    by (simp add: recovery_handle_error_def recovery_strategy_of_def handle_reconnect_def
        recovery_manager_new_def hm_entry_def sat_add_def sat_of_nat_def)
  show ?thesis
    using reconnect_bans_above_threshold [OF run step] step by simp
qed

text \<open>
  Readiness is judged by the next delay, not by the one handed out. After \<open>next_backoff\<close> has
  returned a delay, \<open>is_ready_to_retry\<close> answers true only once the base delay of the following
  attempt has passed: the counter has already been advanced, so a caller that polls it waits for
  twice the scheduled delay (until the cap is reached).
\<close>

lemma ready_after_next_delay:
  assumes "next_backoff nanos now b = Some (d, b')"
  shows "is_ready_to_retry t b' \<longleftrightarrow>
           duration_from_millis
             (min (unat (eb_initial_delay_ms b) * 2 ^ min (unat (eb_attempt b) + 1) (2 ^ 32 - 1))
                  (unat (eb_max_delay_ms b))) \<le> t - now"
  using next_backoff_Some [OF assms]
  by (simp add: is_ready_to_retry_def unat_backoff_delay machine_simps duration_since_def)

lemma ready_after_next_delay_witness:
  "\<exists>d b'. next_backoff 3 0 (backoff_new 1000 300000) = Some (d, b')
     \<and> \<not> is_ready_to_retry 1999999999 b' \<and> is_ready_to_retry 2000000000 b'"
proof -
  obtain d b' where nb: "next_backoff 3 0 (backoff_new 1000 300000) = Some (d, b')"
    by (rule standard_next_backoff [OF standard_backoff_new])
  show ?thesis
    using nb ready_after_next_delay [OF nb]
    by (simp add: backoff_new_def duration_from_millis_def)
qed

text \<open>
  C32: the fixed window admits exactly its quota. For calls that fall into the window opened by
  the last reset, fewer than \<open>2^32\<close> of them, the first \<open>max_messages_per_sec\<close> are allowed and all
  later ones refused.
\<close>

theorem fixed_window_quota:
  assumes "\<forall>t\<in>set ts. t - t0 < 1000000000" and "length ts < 2 ^ 32"
  shows "fst (limiter_run ts (fixed_window_new limit d t0)) =
           replicate (min (length ts) (unat limit)) True
             @ replicate (length ts - unat limit) False"
proof -
  have "fst (limiter_run ts (fixed_window_new limit d t0)) =
          map (\<lambda>k. word_of_nat k < limit) [0..<length ts]"
    using limiter_run_window [of ts "fixed_window_new limit d t0"] assms(1)
    by (simp add: fixed_window_new_def)
  also have "\<dots> = map (\<lambda>k. k < unat limit) [0..<length ts]"
    using assms(2) by (intro map_cong) (auto simp: word_less_nat_alt unat_of_nat_small)
  also have "\<dots> = replicate (min (length ts) (unat limit)) True
                     @ replicate (length ts - unat limit) False"
    by (rule nth_equalityI) (auto simp: nth_append)
  finally show ?thesis .
qed

theorem fixed_window_quota_witness:
  "fst (limiter_run [5, 6, 7] (fixed_window_new 2 0 5)) = [True, True, False]"
proof -
  have "fst (limiter_run [5, 6, 7] (fixed_window_new 2 0 5)) =
          replicate (min (length [5, 6, 7 :: nat]) (unat (2 :: u32))) True
            @ replicate (length [5, 6, 7 :: nat] - unat (2 :: u32)) False"
    by (rule fixed_window_quota) simp_all
  also have "\<dots> = [True, True, False]" by code_simp
  finally show ?thesis .
qed

text \<open>
  The quota is per fixed window, not per second of time. A burst of \<open>limit\<close> messages in the
  last nanosecond of a window followed by another \<open>limit\<close> messages one nanosecond later is allowed
  in full: twice the configured rate.
\<close>

lemma fixed_window_double_burst:
  "fst (limiter_run (replicate (unat limit) (t0 + 999999999) @ replicate (unat limit) (t0 + 1000000000))
          (fixed_window_new limit d t0)) = replicate (2 * unat limit) True"
proof (cases "unat limit")
  case 0
  then show ?thesis by simp
next
  case (Suc n)
  let ?r = "fixed_window_new limit d t0" and ?t = "t0 + 1000000000"
  let ?r1 = "?r\<lparr>fw_message_count := word_of_nat (unat limit)\<rparr>"
  have 1: "limiter_run (replicate (unat limit) (t0 + 999999999)) ?r = (replicate (unat limit) True, ?r1)"
    using limiter_run_full_window [of "replicate (unat limit) (t0 + 999999999)" ?r]
    by (simp add: fixed_window_new_def)
  have "limiter_run (replicate (unat limit) ?t) ?r1 =
          limiter_run (replicate (unat limit) ?t) (?r\<lparr>fw_message_count := 0, fw_last_reset := ?t\<rparr>)"
    using limiter_run_rollover [of ?t ?r1 "replicate n ?t"] Suc
    by (simp add: fixed_window_new_def del: limiter_run.simps)
  also have "fst \<dots> = replicate (unat limit) True"
    using limiter_run_full_window [of "replicate (unat limit) ?t"
        "?r\<lparr>fw_message_count := 0, fw_last_reset := ?t\<rparr>"]
    by (simp add: fixed_window_new_def)
  finally have 2: "fst (limiter_run (replicate (unat limit) ?t) ?r1) = replicate (unat limit) True" .
  show ?thesis
    using 1 2 by (simp add: limiter_run_append Let_def split_beta mult_2 replicate_add)
qed

end
