(* ===== verification/Error_Handling.thy ===== *)
theory Error_Handling
  imports Error_Logging Error_Recovery
begin

text \<open>
  The integration layer (\<open>src/error_handling.rs\<close>): \<open>ComprehensiveErrorHandler::handle_error\<close>
  calls the custom handler, chooses the recovery by the error's strategy, asks the recovery
  manager and logs the error with the action taken. The custom handler is code of the embedding
  program: its part of the result is the list of calls it receives. \<open>None\<close> is a panic of the
  recovery manager.
\<close>

section \<open>Debug output of a recovery action\<close>

text \<open>\<open>fmt_decimal\<close> of the standard library's \<open>Debug\<close> for \<open>Duration\<close>, without a precision.\<close>

definition pad_zeros :: "nat \<Rightarrow> string \<Rightarrow> string" where
  "pad_zeros w s = replicate (w - length s) (CHR ''0'') @ s"

definition strip_zeros :: "string \<Rightarrow> string" where
  "strip_zeros s = rev (dropWhile (\<lambda>c. c = CHR ''0'') (rev s))"

definition fmt_decimal :: "nat \<Rightarrow> nat \<Rightarrow> nat \<Rightarrow> string \<Rightarrow> string" where
  "fmt_decimal i fp w unit =
     (let ds = strip_zeros (pad_zeros w (show_nat fp))
      in show_nat i @ (if ds = [] then [] else ''.'' @ ds) @ unit)"

definition duration_debug :: "duration \<Rightarrow> string" where
  "duration_debug d =
     (if 1000000000 \<le> d then fmt_decimal (d div 1000000000) (d mod 1000000000) 9 ''s''
      else if 1000000 \<le> d then fmt_decimal (d div 1000000) (d mod 1000000) 6 ''ms''
      else if 1000 \<le> d then fmt_decimal (d div 1000) (d mod 1000) 3 [CHR 0xC2, CHR 0xB5, CHR ''s'']
      else fmt_decimal d 0 0 ''ns'')"

fun recovery_action_debug :: "recovery_action \<Rightarrow> string" where
  "recovery_action_debug (RA_ScheduleReconnect d) = ''ScheduleReconnect('' @ duration_debug d @ '')''"
| "recovery_action_debug (RA_Throttle d) = ''Throttle('' @ duration_debug d @ '')''"
| "recovery_action_debug RA_Reconnect = ''Reconnect''"
| "recovery_action_debug RA_Retry = ''Retry''"
| "recovery_action_debug (RA_WaitAndRetry d) = ''WaitAndRetry('' @ duration_debug d @ '')''"
| "recovery_action_debug RA_Alert = ''Alert''"
| "recovery_action_debug RA_FailStartup = ''FailStartup''"
| "recovery_action_debug RA_Ban = ''Ban''"
| "recovery_action_debug RA_Log = ''Log''"

section \<open>The handler\<close>

record error_handler =
  eh_logger :: error_logger
  eh_recovery_manager :: recovery_manager
  eh_custom_handler :: bool
  eh_enable_alerts :: bool

definition get_error_summary :: "error_handler \<Rightarrow> error_summary" where
  "get_error_summary h = get_summary (eh_logger h)"

definition handler_recent_errors :: "usize \<Rightarrow> error_handler \<Rightarrow> error_log_entry list" where
  "handler_recent_errors count h = get_recent_errors count (eh_logger h)"

definition handler_errors_by_category :: "error_category \<Rightarrow> error_handler \<Rightarrow> error_log_entry list" where
  "handler_errors_by_category category h = get_errors_by_category category (eh_logger h)"

definition error_handler_new :: "error_logger \<Rightarrow> recovery_manager \<Rightarrow> bool \<Rightarrow> error_handler" where
  "error_handler_new logger manager enable_alerts =
     \<lparr>eh_logger = logger, eh_recovery_manager = manager, eh_custom_handler = False,
      eh_enable_alerts = enable_alerts\<rparr>"

definition with_custom_handler :: "error_handler \<Rightarrow> error_handler" where
  "with_custom_handler h = h\<lparr>eh_custom_handler := True\<rparr>"

text \<open>The readings of the clocks made during one call, in the order of the code.\<close>

record handling_clock =
  hc_nanos :: nat
  hc_now :: instant
  hc_alert_time :: system_time
  hc_log_time :: system_time

definition peer_or_unknown :: "error_context \<Rightarrow> string" where
  "peer_or_unknown ctx = (case ec_peer_id ctx of None \<Rightarrow> ''unknown'' | Some p \<Rightarrow> p)"

text \<open>
  \<open>handle_connection_error\<close>, \<open>handle_rate_limit_error\<close>, \<open>handle_peer_error\<close>,
  \<open>handle_retry_error\<close> and \<open>handle_network_partition\<close> have this one body; they differ in what
  they write to the log.
\<close>

definition recover_or_log ::
  "handling_clock \<Rightarrow> string \<Rightarrow> network_error \<Rightarrow> error_handler \<Rightarrow> (recovery_action \<times> error_handler) option"
  where
  "recover_or_log clk peer err h =
     (case recovery_handle_error (hc_nanos clk) (hc_now clk) peer err (eh_recovery_manager h) of
        None \<Rightarrow> None
      | Some (Inr action, m) \<Rightarrow> Some (action, h\<lparr>eh_recovery_manager := m\<rparr>)
      | Some (Inl e, m) \<Rightarrow> Some (RA_Log, h\<lparr>eh_recovery_manager := m\<rparr>))"

definition send_operator_alert ::
  "handling_clock \<Rightarrow> network_error \<Rightarrow> error_context \<Rightarrow> error_handler \<Rightarrow> error_handler option" where
  "send_operator_alert clk err ctx h =
     (case recovery_handle_error (hc_nanos clk) (hc_now clk) (peer_or_unknown ctx) err
             (eh_recovery_manager h) of
        None \<Rightarrow> None
      | Some (r, m) \<Rightarrow>
          (let action = (case r of Inr a \<Rightarrow> Some (recovery_action_debug a) | Inl _ \<Rightarrow> None)
           in Some (h\<lparr>eh_recovery_manager := m,
                      eh_logger := log_error err ctx True action (hc_alert_time clk) (eh_logger h)\<rparr>)))"

definition handle_critical_error ::
  "handling_clock \<Rightarrow> network_error \<Rightarrow> error_context \<Rightarrow> error_handler \<Rightarrow> (recovery_action \<times> error_handler) option"
  where
  "handle_critical_error clk err ctx h =
     (if eh_enable_alerts h
      then (case send_operator_alert clk err ctx h of None \<Rightarrow> None | Some h' \<Rightarrow> Some (RA_Alert, h'))
      else Some (RA_Alert, h))"

definition handle_startup_error :: "error_handler \<Rightarrow> (recovery_action \<times> error_handler) option" where
  "handle_startup_error h = Some (RA_FailStartup, h)"

definition handle_log_only_error :: "error_handler \<Rightarrow> (recovery_action \<times> error_handler) option" where
  "handle_log_only_error h = Some (RA_Log, h)"

definition dispatched_call :: "network_error \<Rightarrow> error_context \<Rightarrow> handler_call" where
  "dispatched_call err ctx =
     (if is_critical err then HC_critical err ctx
      else if is_recoverable err then HC_recoverable err ctx
      else HC_error err ctx)"

definition custom_calls :: "network_error \<Rightarrow> error_context \<Rightarrow> error_handler \<Rightarrow> handler_call list" where
  "custom_calls err ctx h = (if eh_custom_handler h then [dispatched_call err ctx] else [])"

definition handle_error ::
  "handling_clock \<Rightarrow> network_error \<Rightarrow> error_context \<Rightarrow> error_handler
     \<Rightarrow> ((network_error + recovery_action) \<times> handler_call list \<times> error_handler) option" where
  "handle_error clk err ctx h =
     (let peer = peer_or_unknown ctx;
          calls = custom_calls err ctx h;
          recovery =
            (case recovery_strategy_of err of
               RS_ExponentialBackoff \<Rightarrow> recover_or_log clk peer err h
             | RS_Throttle \<Rightarrow> recover_or_log clk peer err h
             | RS_Reconnect \<Rightarrow> recover_or_log clk peer err h
             | RS_Retry \<Rightarrow> recover_or_log clk peer err h
             | RS_WaitAndRetry \<Rightarrow> recover_or_log clk peer err h
             | RS_Alert \<Rightarrow> handle_critical_error clk err ctx h
             | RS_FailStartup \<Rightarrow> handle_startup_error h
             | RS_Log \<Rightarrow> handle_log_only_error h)
      in case recovery of
           None \<Rightarrow> None
         | Some (action, h') \<Rightarrow>
             Some (Inr action, calls,
                   h'\<lparr>eh_logger := log_error err ctx (is_recoverable err)
                        (Some (recovery_action_debug action)) (hc_log_time clk) (eh_logger h')\<rparr>))"

section \<open>One call\<close>

text \<open>The contract of a recovery service: an answer and never a failure, in every good state.\<close>

locale recovery_service =
  fixes recover :: "nat \<Rightarrow> instant \<Rightarrow> string \<Rightarrow> network_error \<Rightarrow> 'm \<Rightarrow> ((network_error + 'a) \<times> 'm) option"
    and ok :: "'m \<Rightarrow> bool"
  assumes answers: "ok m \<Longrightarrow> \<exists>a m'. recover nanos now p e m = Some (Inr a, m') \<and> ok m'"
begin

lemma answerE:
  assumes "ok m"
  obtains a m' where "recover nanos now p e m = Some (Inr a, m')" and "ok m'"
  using answers [OF assms] by blast

lemma no_error: "ok m \<Longrightarrow> recover nanos now p e m \<noteq> Some (Inl x, m')"
  using answers [of m nanos now p e] by auto

end

interpretation manager: recovery_service recovery_handle_error manager_ok
proof unfold_locales
  fix m nanos now p e
  assume "manager_ok m"
  then show "\<exists>a m'. recovery_handle_error nanos now p e m = Some (Inr a, m') \<and> manager_ok m'"
    by (rule recovery_handle_error_total) blast
qed

definition handler_ok :: "error_handler \<Rightarrow> bool" where
  "handler_ok h \<longleftrightarrow> manager_ok (eh_recovery_manager h)"

text \<open>The calls to the logger made by one call of the handler.\<close>

definition alerted :: "network_error \<Rightarrow> error_handler \<Rightarrow> bool" where
  "alerted err h \<longleftrightarrow> recovery_strategy_of err = RS_Alert \<and> eh_enable_alerts h"

definition handler_log_calls ::
  "handling_clock \<Rightarrow> network_error \<Rightarrow> error_context \<Rightarrow> recovery_action \<Rightarrow> error_handler \<Rightarrow> log_call list" where
  "handler_log_calls clk err ctx action h =
     (if alerted err h then [(err, ctx, True, Some ''Alert'', hc_alert_time clk)] else []) @
     [(err, ctx, is_recoverable err, Some (recovery_action_debug action), hc_log_time clk)]"

lemma recover_or_log_answers:
  assumes "handler_ok h"
  obtains a m where "recover_or_log clk p err h = Some (a, h\<lparr>eh_recovery_manager := m\<rparr>)"
    and "recovery_handle_error (hc_nanos clk) (hc_now clk) p err (eh_recovery_manager h) = Some (Inr a, m)"
    and "manager_ok m"
  using assms manager.answerE [of "eh_recovery_manager h" "hc_nanos clk" "hc_now clk" p err]
  by (metis (no_types, lifting) handler_ok_def old.prod.case old.sum.simps(6) option.case(2) recover_or_log_def)

lemma alert_recovery:
  "recovery_strategy_of err = RS_Alert \<Longrightarrow> recovery_handle_error n t p err m = Some (Inr RA_Alert, m)"
  by (simp add: recovery_handle_error_def handle_alert_def)

lemma startup_log_recovery:
  "recovery_strategy_of err = RS_FailStartup \<Longrightarrow>
     recovery_handle_error n t p err m = Some (Inr RA_FailStartup, m)"
  "recovery_strategy_of err = RS_Log \<Longrightarrow> recovery_handle_error n t p err m = Some (Inr RA_Log, m)"
  by (simp_all add: recovery_handle_error_def handle_fail_startup_def handle_log_def)

lemma handle_error_effect:
  assumes "handler_ok h"
  obtains a m where
    "recovery_handle_error (hc_nanos clk) (hc_now clk) (peer_or_unknown ctx) err
        (eh_recovery_manager h) = Some (Inr a, m)"
    and "manager_ok m"
    and "handle_error clk err ctx h =
      Some (Inr a, custom_calls err ctx h,
            h\<lparr>eh_recovery_manager := m,
              eh_logger := fold log_step (handler_log_calls clk err ctx a h) (eh_logger h)\<rparr>)"
proof (cases "retrying_strategy (recovery_strategy_of err)")
  case True
  obtain a m where r: "recover_or_log clk (peer_or_unknown ctx) err h = Some (a, h\<lparr>eh_recovery_manager := m\<rparr>)"
    and rec: "recovery_handle_error (hc_nanos clk) (hc_now clk) (peer_or_unknown ctx) err
        (eh_recovery_manager h) = Some (Inr a, m)"
    and ok: "manager_ok m"
    by (rule recover_or_log_answers [OF assms])
  show thesis
    using True r
    by (intro that [OF rec ok])
       (cases "recovery_strategy_of err"; simp add: handle_error_def handler_log_calls_def alerted_def
         log_step_def retrying_strategy_def)
next
  case False
  then consider (alert) "recovery_strategy_of err = RS_Alert"
    | (startup) "recovery_strategy_of err = RS_FailStartup"
    | (log) "recovery_strategy_of err = RS_Log"
    by (auto simp: retrying_strategy_def)
  then show thesis
  proof cases
    case alert
    then show thesis
      using assms
      by (intro that [OF alert_recovery [OF alert]])
         (simp_all add: handler_ok_def handle_error_def handle_critical_error_def
           send_operator_alert_def alert_recovery handler_log_calls_def alerted_def log_step_def)
  next
    case startup
    then show thesis
      using assms
      by (intro that [OF startup_log_recovery(1) [OF startup]])
         (simp_all add: handler_ok_def handle_error_def handle_startup_error_def
           handler_log_calls_def alerted_def log_step_def)
  next
    case log
    then show thesis
      using assms
      by (intro that [OF startup_log_recovery(2) [OF log]])
         (simp_all add: handler_ok_def handle_error_def handle_log_only_error_def
           handler_log_calls_def alerted_def log_step_def)
  qed
qed

section \<open>Sequences of calls\<close>

type_synonym handling_call = "handling_clock \<times> network_error \<times> error_context"

fun handler_run ::
  "handling_call list \<Rightarrow> error_handler \<Rightarrow> (recovery_action list \<times> handler_call list \<times> error_handler) option"
  where
  "handler_run [] h = Some ([], [], h)"
| "handler_run ((clk, err, ctx) # cs) h =
     (case handle_error clk err ctx h of
        Some (Inr a, calls, h') \<Rightarrow>
          map_option (\<lambda>(as, calls', h''). (a # as, calls @ calls', h'')) (handler_run cs h')
      | _ \<Rightarrow> None)"

definition call_error :: "handling_call \<Rightarrow> network_error" where
  "call_error c = fst (snd c)"

definition call_dispatched :: "handling_call \<Rightarrow> handler_call" where
  "call_dispatched c = dispatched_call (call_error c) (snd (snd c))"

text \<open>Which actions answer which strategy.\<close>

fun action_fits :: "recovery_strategy \<Rightarrow> recovery_action \<Rightarrow> bool" where
  "action_fits RS_ExponentialBackoff (RA_ScheduleReconnect d) = True"
| "action_fits RS_Throttle (RA_Throttle d) = True"
| "action_fits RS_Reconnect RA_Reconnect = True"
| "action_fits RS_Reconnect RA_Ban = True"
| "action_fits RS_Retry RA_Retry = True"
| "action_fits RS_WaitAndRetry (RA_WaitAndRetry d) = True"
| "action_fits RS_Alert RA_Alert = True"
| "action_fits RS_FailStartup RA_FailStartup = True"
| "action_fits RS_Log RA_Log = True"
| "action_fits _ _ = False"

lemma recovery_action_fits:
  assumes "recovery_handle_error nanos now p err m = Some (Inr a, m')"
  shows "action_fits (recovery_strategy_of err) a"
  using assms
  by (auto simp: recovery_handle_error_def recovery_handler_defs Let_def
      split: recovery_strategy.splits option.splits if_splits)

lemma logger_of_calls:
  "em_total_errors (el_metrics (fold log_step (handler_log_calls clk err ctx a h) l)) =
     em_total_errors (el_metrics l) + 1 + tally (alerted err h)"
  "em_critical_errors (el_metrics (fold log_step (handler_log_calls clk err ctx a h) l)) =
     em_critical_errors (el_metrics l) + tally (error_category_of err = EC_Critical)
       + tally (alerted err h)"
  "em_recovered_errors (el_metrics (fold log_step (handler_log_calls clk err ctx a h) l)) =
     em_recovered_errors (el_metrics l) + tally (is_recoverable err) + tally (alerted err h)"
  by (auto simp: handler_log_calls_def tally_def call_category_def call_recovered_def alerted_def
      strategy_alert_iff error_category_of_def)

lemma handler_run_effect:
  assumes "handler_ok h"
  shows "\<exists>as calls h'. handler_run cs h = Some (as, calls, h') \<and> handler_ok h'
    \<and> eh_enable_alerts h' = eh_enable_alerts h
    \<and> list_all2 (\<lambda>c a. action_fits (recovery_strategy_of (call_error c)) a) cs as
    \<and> calls = (if eh_custom_handler h then map call_dispatched cs else [])
    \<and> em_total_errors (el_metrics (eh_logger h')) =
        em_total_errors (el_metrics (eh_logger h)) + of_nat (length cs)
          + of_nat (length (filter (\<lambda>c. alerted (call_error c) h) cs))
    \<and> em_recovered_errors (el_metrics (eh_logger h')) =
        em_recovered_errors (el_metrics (eh_logger h))
          + of_nat (length (filter (\<lambda>c. is_recoverable (call_error c)) cs))
          + of_nat (length (filter (\<lambda>c. alerted (call_error c) h) cs))"
  using assms
proof (induction cs arbitrary: h)
  case Nil
  then show ?case by simp
next
  case (Cons c cs)
  obtain clk err ctx where c: "c = (clk, err, ctx)" by (cases c)
  obtain a m where rec: "recovery_handle_error (hc_nanos clk) (hc_now clk) (peer_or_unknown ctx) err
        (eh_recovery_manager h) = Some (Inr a, m)"
    and ok: "manager_ok m"
    and step: "handle_error clk err ctx h =
      Some (Inr a, custom_calls err ctx h,
            h\<lparr>eh_recovery_manager := m,
              eh_logger := fold log_step (handler_log_calls clk err ctx a h) (eh_logger h)\<rparr>)"
    by (rule handle_error_effect [OF Cons.prems])
  let ?h = "h\<lparr>eh_recovery_manager := m,
              eh_logger := fold log_step (handler_log_calls clk err ctx a h) (eh_logger h)\<rparr>"
  have "handler_ok ?h" using ok by (simp add: handler_ok_def)
  from Cons.IH [OF this] obtain as calls h' where
    run: "handler_run cs ?h = Some (as, calls, h')" and
    rest: "handler_ok h'" "eh_enable_alerts h' = eh_enable_alerts h"
      "list_all2 (\<lambda>c a. action_fits (recovery_strategy_of (call_error c)) a) cs as"
      "calls = (if eh_custom_handler h then map call_dispatched cs else [])"
      "em_total_errors (el_metrics (eh_logger h')) =
        em_total_errors (el_metrics (eh_logger ?h)) + of_nat (length cs)
          + of_nat (length (filter (\<lambda>c. alerted (call_error c) h) cs))"
      "em_recovered_errors (el_metrics (eh_logger h')) =
        em_recovered_errors (el_metrics (eh_logger ?h))
          + of_nat (length (filter (\<lambda>c. is_recoverable (call_error c)) cs))
          + of_nat (length (filter (\<lambda>c. alerted (call_error c) h) cs))"
    by (auto simp: alerted_def)
  have "custom_calls err ctx h = (if eh_custom_handler h then [call_dispatched c] else [])"
    by (simp add: custom_calls_def call_dispatched_def call_error_def c)
  with run rest step recovery_action_fits [OF rec] show ?case
    by (auto simp: c call_error_def logger_of_calls tally_def)
qed

text \<open>Which method of a custom handler an error calls for, by its kind and its strategy.\<close>

lemma dispatched_call_cases:
  "dispatched_call err ctx =
     (if \<exists>m. err \<in> {CriticalError m, InvalidConfiguration m, ResourceExhaustion m} then HC_critical err ctx
      else if recovery_strategy_of err \<in> {RS_ExponentialBackoff, RS_Throttle, RS_Reconnect, RS_Retry, RS_WaitAndRetry}
      then HC_recoverable err ctx else HC_error err ctx)"
  by (cases err) (simp_all add: dispatched_call_def error_class_defs)

lemma handler_ok_new: "handler_ok (error_handler_new l (recovery_manager_new k) alerts)"
  by (simp add: handler_ok_def error_handler_new_def manager_ok_new)

section \<open>Properties\<close>

text \<open>
  C16: the error pipeline is total and answers by strategy. A handler built on a new recovery
  manager answers every sequence of errors: no panic, no \<open>Err\<close>, one action per error, and each
  action is one that belongs to the error's recovery strategy. A custom handler receives exactly
  one call per error, in order, with the error and its context: \<open>handle_critical_error\<close> for a critical
  error, an invalid configuration or exhausted resources, \<open>handle_recoverable_error\<close> for an error
  whose strategy asks for another attempt, \<open>handle_error\<close> for every other.
\<close>

theorem handler_answers_by_strategy:
  assumes "h = error_handler_new l (recovery_manager_new k) alerts \<or>
           h = with_custom_handler (error_handler_new l (recovery_manager_new k) alerts)"
  shows "\<exists>as calls h'. handler_run cs h = Some (as, calls, h')
    \<and> list_all2 (\<lambda>c a. action_fits (recovery_strategy_of (call_error c)) a) cs as
    \<and> (\<not> eh_custom_handler h \<longrightarrow> calls = [])
    \<and> (eh_custom_handler h \<longrightarrow> list_all2 (\<lambda>(clk, err, ctx) call. call =
          (if \<exists>m. err \<in> {CriticalError m, InvalidConfiguration m, ResourceExhaustion m} then HC_critical err ctx
           else if recovery_strategy_of err
                     \<in> {RS_ExponentialBackoff, RS_Throttle, RS_Reconnect, RS_Retry, RS_WaitAndRetry}
           then HC_recoverable err ctx else HC_error err ctx)) cs calls)"
proof -
  have "handler_ok h"
    using assms handler_ok_new by (auto simp: with_custom_handler_def handler_ok_def)
  from handler_run_effect [OF this, of cs] show ?thesis
    unfolding dispatched_call_cases [symmetric]
    by (fastforce simp: list_all2_map2 call_dispatched_def call_error_def split_beta intro: list_all2_refl)
qed

theorem handler_answers_by_strategy_witness:
  "\<exists>as calls h'. handler_run [(\<lparr>hc_nanos = 1, hc_now = 2, hc_alert_time = 3, hc_log_time = 4\<rparr>,
        PeerDisconnected ''x'', error_context_new ''op'' 0)]
      (with_custom_handler (error_handler_new (error_logger_new 3) (recovery_manager_new 0) True))
     = Some (as, calls, h') \<and> calls = [HC_recoverable (PeerDisconnected ''x'') (error_context_new ''op'' 0)]"
  using handler_answers_by_strategy
    [of "with_custom_handler (error_handler_new (error_logger_new 3) (recovery_manager_new 0) True)"
        "error_logger_new 3" 0 True
        "[(\<lparr>hc_nanos = 1, hc_now = 2, hc_alert_time = 3, hc_log_time = 4\<rparr>,
           PeerDisconnected ''x'', error_context_new ''op'' 0)]"]
  by (fastforce simp: with_custom_handler_def list_all2_Cons1 error_class_defs simp del: handler_run.simps)

text \<open>
  With \<open>DefaultErrorHandler\<close> as the custom handler the log has one line per error: a warning for a
  recoverable error, an error line otherwise, and the recovery suggestion except for the errors
  that are neither critical nor recoverable.
\<close>

lemma default_handler_log:
  "le_level (default_handler (dispatched_call err ctx)) = (if is_recoverable err then Level_Warn else Level_Error)"
  "le_recovery (default_handler (dispatched_call err ctx)) =
     (if is_recoverable err \<or> is_critical err then Some (ec_recovery_suggestion ctx) else None)"
  by (auto simp: dispatched_call_def log_line_def dest: recoverable_not_critical)

text \<open>
  What the pipeline counts. With a new logger and operator alerts off, the total is the number
  of errors handled and the recovered counter the number of recoverable ones. With alerts on, every
  \<open>CriticalError\<close> is logged a second time by \<open>send_operator_alert\<close>, with \<open>recovered = true\<close>:
  the total and the recovered counter both exceed the real numbers by the number of critical errors.
\<close>

lemma handler_double_counts_alerts:
  "\<exists>as calls h'. handler_run cs (error_handler_new (error_logger_new n) (recovery_manager_new k) alerts)
       = Some (as, calls, h')
    \<and> (let criticals = length (filter (\<lambda>c. \<exists>m. call_error c = CriticalError m) cs)
       in em_total_errors (el_metrics (eh_logger h')) =
            of_nat (length cs) + of_nat (if alerts then criticals else 0)
        \<and> em_recovered_errors (el_metrics (eh_logger h')) =
            of_nat (length (filter (\<lambda>c. is_recoverable (call_error c)) cs))
              + of_nat (if alerts then criticals else 0))"
proof -
  let ?h = "error_handler_new (error_logger_new n) (recovery_manager_new k) alerts"
  have "filter (\<lambda>c. alerted (call_error c) ?h) cs =
          (if alerts then filter (\<lambda>c. \<exists>m. call_error c = CriticalError m) cs else [])"
    by (simp add: alerted_def strategy_alert_iff error_handler_new_def)
  with handler_run_effect [OF handler_ok_new, of cs "error_logger_new n" k alerts] show ?thesis
    by (auto simp: Let_def error_handler_new_def)
qed

end
