(* ===== verification/Messages.thy ===== *)
theory Messages
  imports Prelude
begin

text \<open>
  The messages of the mining network (\<open>src/message.rs\<close>). \<open>Transaction\<close> and
  \<open>TransactionBatch\<close> belong to \<open>silver-core\<close> and are type variables; the \<open>bincode\<close> encoder and
  decoder are arguments (\<open>Inl\<close> is a \<open>bincode::Error\<close>, as its text).
\<close>

datatype ('tx, 'batch) network_message =
    NM_Transaction 'tx
  | NM_Batch 'batch
  | NM_WorkPackage (nmw_work_id: u64) (nmw_header: bytes) (nmw_target: u64) (nmw_chain_id: u32)
  | NM_MinerShare (nms_work_id: u64) (nms_nonce: u64) (nms_miner_address: bytes)
  | NM_BatchRequest (nmr_from_sequence: u64) (nmr_to_sequence: u64)
  | NM_BatchResponse "'batch list"
  | NM_Ping u64
  | NM_Pong u64

datatype message_type =
    MT_Transaction
  | MT_Batch
  | MT_WorkPackage
  | MT_MinerShare
  | MT_BatchRequest
  | MT_BatchResponse
  | MT_Ping
  | MT_Pong

fun message_type_of :: "('tx, 'batch) network_message \<Rightarrow> message_type" where
  "message_type_of (NM_Transaction _) = MT_Transaction"
| "message_type_of (NM_Batch _) = MT_Batch"
| "message_type_of (NM_WorkPackage _ _ _ _) = MT_WorkPackage"
| "message_type_of (NM_MinerShare _ _ _) = MT_MinerShare"
| "message_type_of (NM_BatchRequest _ _) = MT_BatchRequest"
| "message_type_of (NM_BatchResponse _) = MT_BatchResponse"
| "message_type_of (NM_Ping _) = MT_Ping"
| "message_type_of (NM_Pong _) = MT_Pong"

definition message_to_bytes ::
  "(('tx, 'batch) network_message \<Rightarrow> string + bytes) \<Rightarrow> ('tx, 'batch) network_message \<Rightarrow> string + bytes"
  where
  "message_to_bytes serialize m = serialize m"

definition message_from_bytes ::
  "(bytes \<Rightarrow> string + ('tx, 'batch) network_message) \<Rightarrow> bytes \<Rightarrow> string + ('tx, 'batch) network_message"
  where
  "message_from_bytes deserialize data = deserialize data"

fun estimated_size :: "('tx, 'batch) network_message \<Rightarrow> usize" where
  "estimated_size (NM_Transaction _) = 1024"
| "estimated_size (NM_Batch _) = 512 * 1024"
| "estimated_size (NM_WorkPackage _ _ _ _) = 256"
| "estimated_size (NM_MinerShare _ _ _) = 128"
| "estimated_size (NM_BatchRequest _ _) = 64"
| "estimated_size (NM_BatchResponse batches) = length batches * 512 * 1024"
| "estimated_size (NM_Ping _) = 32"
| "estimated_size (NM_Pong _) = 32"

text \<open>The derived \<open>Debug\<close> text of a message type.\<close>

fun message_type_debug :: "message_type \<Rightarrow> string" where
  "message_type_debug MT_Transaction = ''Transaction''"
| "message_type_debug MT_Batch = ''Batch''"
| "message_type_debug MT_WorkPackage = ''WorkPackage''"
| "message_type_debug MT_MinerShare = ''MinerShare''"
| "message_type_debug MT_BatchRequest = ''BatchRequest''"
| "message_type_debug MT_BatchResponse = ''BatchResponse''"
| "message_type_debug MT_Ping = ''Ping''"
| "message_type_debug MT_Pong = ''Pong''"

end
