(* ===== verification/Wire.thy ===== *)
theory Wire
  imports Prelude
begin

text \<open>
  Fixed-width integers on the wire: \<open>u32::to_be_bytes\<close>, \<open>from_be_bytes\<close> and their
  little-endian versions, on the natural number that the code casts to \<open>u32\<close> (a longer length is
  truncated by the cast, and so here). Both are a \<open>length_codec\<close>; the facts about prefixed data are
  proved once from that contract.
\<close>

definition to_be_bytes :: "nat \<Rightarrow> bytes" where
  "to_be_bytes n =
     [word_of_nat (n div 2 ^ 24), word_of_nat (n div 2 ^ 16), word_of_nat (n div 2 ^ 8), word_of_nat n]"

definition to_le_bytes :: "nat \<Rightarrow> bytes" where
  "to_le_bytes n =
     [word_of_nat n, word_of_nat (n div 2 ^ 8), word_of_nat (n div 2 ^ 16), word_of_nat (n div 2 ^ 24)]"

text \<open>The decoders read the first four bytes of their argument, which the callers guard.\<close>

definition from_be_bytes :: "bytes \<Rightarrow> nat" where
  "from_be_bytes bs =
     unat (bs ! 0) * 2 ^ 24 + unat (bs ! 1) * 2 ^ 16 + unat (bs ! 2) * 2 ^ 8 + unat (bs ! 3)"

definition from_le_bytes :: "bytes \<Rightarrow> nat" where
  "from_le_bytes bs =
     unat (bs ! 0) + unat (bs ! 1) * 2 ^ 8 + unat (bs ! 2) * 2 ^ 16 + unat (bs ! 3) * 2 ^ 24"

lemma four_digits:
  "n mod 256 + n div 256 mod 256 * 256 + n div 65536 mod 256 * 65536
     + n div 16777216 mod 256 * 16777216 = n mod (2 ^ 32 :: nat)"
proof -
  have "n mod (256 * 16777216) = 256 * (n div 256 mod 16777216) + n mod 256"
    by (rule mod_mult2_eq)
  moreover have "n div 256 mod (256 * 65536) = 256 * (n div 256 div 256 mod 65536) + n div 256 mod 256"
    by (rule mod_mult2_eq)
  moreover have "n div 65536 mod (256 * 256) = 256 * (n div 65536 div 256 mod 256) + n div 65536 mod 256"
    by (rule mod_mult2_eq)
  ultimately show ?thesis
    by (simp add: div_mult2_eq [symmetric])
qed

lemma unat_byte: "unat (word_of_nat n :: 8 word) = n mod 256"
  by (simp add: unat_of_nat take_bit_eq_mod)

lemma byteI: "n mod 256 = unat a \<Longrightarrow> word_of_nat n = (a :: 8 word)"
  by (metis unat_byte word_eq_iff_unsigned)

locale length_codec =
  fixes enc :: "nat \<Rightarrow> bytes" and dec :: "bytes \<Rightarrow> nat"
  assumes length_enc: "length (enc n) = 4"
    and dec_enc: "dec (enc n @ rest) = n mod 2 ^ 32"
    and dec_less: "4 \<le> length bs \<Longrightarrow> dec bs < 2 ^ 32"
    and enc_dec: "4 \<le> length bs \<Longrightarrow> enc (dec bs) = take 4 bs"
begin

text \<open>Length-prefixed data and what a reader of the prefix sees.\<close>

lemma prefix_length: "length (enc (length p) @ p) = 4 + length p"
  by (simp add: length_enc)

lemma prefix_body:
  assumes "length p < 2 ^ 32"
  shows "dec (enc (length p) @ p @ rest) = length p"
    and "take (length p) (drop 4 (enc (length p) @ p @ rest)) = p"
    and "drop (4 + length p) (enc (length p) @ p @ rest) = rest"
  using assms by (simp_all add: dec_enc length_enc)

lemma prefix_canonical:
  assumes "4 \<le> length bs" and "4 + dec bs \<le> length bs"
  shows "bs = enc (dec bs) @ take (dec bs) (drop 4 bs) @ drop (4 + dec bs) bs"
proof -
  have "bs = take 4 bs @ take (dec bs) (drop 4 bs) @ drop (dec bs) (drop 4 bs)"
    by (simp only: append_take_drop_id)
  then show ?thesis
    using enc_dec [OF assms(1)] by (simp add: add.commute)
qed

end

lemma list4:
  assumes "4 \<le> length bs"
  obtains a b c d rest where "bs = a # b # c # d # rest"
  using assms by (auto simp: numeral_eq_Suc Suc_le_length_iff)

lemma digit_recompose:
  fixes a b c d :: "8 word"
  defines "n \<equiv> unat a + unat b * 2 ^ 8 + unat c * 2 ^ 16 + unat d * 2 ^ 24"
  shows "n < 2 ^ 32" and "word_of_nat n = a" and "word_of_nat (n div 2 ^ 8) = b"
    and "word_of_nat (n div 2 ^ 16) = c" and "word_of_nat (n div 2 ^ 24) = d"
proof -
  have lt: "unat a < 256" "unat b < 256" "unat c < 256" "unat d < 256"
    using unat_less_pow [where ?'a = 8] by simp_all
  define r where "r = unat c + 256 * unat d"
  define q where "q = unat b + 256 * r"
  have n: "n = unat a + 256 * q"
    by (simp add: n_def q_def r_def)
  have d: "n div 256 = q" "q div 256 = r" "r div 256 = unat d"
    using lt unfolding n unfolding q_def unfolding r_def by simp_all
  have m: "n mod 256 = unat a" "q mod 256 = unat b" "r mod 256 = unat c" "unat d mod 256 = unat d"
    using lt unfolding n by (simp_all add: q_def r_def del: distrib_left_numeral)
  have "n div 65536 = r" "n div 16777216 = unat d"
    using d div_mult2_eq [of n 256 256] div_mult2_eq [of n 256 65536] div_mult2_eq [of q 256 256]
    by simp_all
  with d m have "n mod 256 = unat a" and "n div 256 mod 256 = unat b"
    and "n div 65536 mod 256 = unat c" and "n div 16777216 mod 256 = unat d"
    by simp_all
  then show "word_of_nat n = a" and "word_of_nat (n div 2 ^ 8) = b"
    and "word_of_nat (n div 2 ^ 16) = c" and "word_of_nat (n div 2 ^ 24) = d"
    by (simp_all add: byteI)
  show "n < 2 ^ 32" using lt unfolding n_def by simp
qed

interpretation be: length_codec to_be_bytes from_be_bytes
proof unfold_locales
  fix n :: nat and rest :: bytes
  show "length (to_be_bytes n) = 4" by (simp add: to_be_bytes_def)
  show "from_be_bytes (to_be_bytes n @ rest) = n mod 2 ^ 32"
    using four_digits [of n] by (simp add: from_be_bytes_def to_be_bytes_def unat_byte)
next
  fix bs :: bytes
  assume "4 \<le> length bs"
  then obtain a b c d rest where bs: "bs = a # b # c # d # rest" by (rule list4)
  have n: "from_be_bytes bs = unat d + unat c * 2 ^ 8 + unat b * 2 ^ 16 + unat a * 2 ^ 24"
    by (simp add: from_be_bytes_def bs)
  show "from_be_bytes bs < 2 ^ 32"
    unfolding n by (rule digit_recompose(1))
  show "to_be_bytes (from_be_bytes bs) = take 4 bs"
    unfolding n to_be_bytes_def digit_recompose by (simp add: bs numeral_eq_Suc)
qed

interpretation le: length_codec to_le_bytes from_le_bytes
proof unfold_locales
  fix n :: nat and rest :: bytes
  show "length (to_le_bytes n) = 4" by (simp add: to_le_bytes_def)
  show "from_le_bytes (to_le_bytes n @ rest) = n mod 2 ^ 32"
    using four_digits [of n] by (simp add: from_le_bytes_def to_le_bytes_def unat_byte)
next
  fix bs :: bytes
  assume "4 \<le> length bs"
  then obtain a b c d rest where bs: "bs = a # b # c # d # rest" by (rule list4)
  have n: "from_le_bytes bs = unat a + unat b * 2 ^ 8 + unat c * 2 ^ 16 + unat d * 2 ^ 24"
    by (simp add: from_le_bytes_def bs)
  show "from_le_bytes bs < 2 ^ 32"
    unfolding n by (rule digit_recompose(1))
  show "to_le_bytes (from_le_bytes bs) = take 4 bs"
    unfolding n to_le_bytes_def digit_recompose by (simp add: bs numeral_eq_Suc)
qed

end
