(* ===== verification/Batching.thy ===== *)
theory Batching
  imports Wire Float64
begin

text \<open>
  The message batcher of \<open>src/compression.rs\<close>: \<open>MessageBatcher\<close> gathers messages, \<open>flush\<close>
  serialises them with little-endian counts and lengths, \<open>unbatch\<close> parses such a batch. The
  lemmas give the exact language of \<open>unbatch\<close> and follow a stream of messages through the
  batcher.
\<close>

section \<open>Model\<close>

record batch_stats =
  bst_batches_created :: u64
  bst_messages_batched :: u64
  bst_avg_messages_per_batch :: f64
  bst_avg_batch_size :: f64

record message_batcher =
  mb_pending :: "bytes list"
  mb_current_size :: usize
  mb_max_batch_size :: usize
  mb_max_messages :: usize
  mb_stats :: batch_stats

definition batch_stats_default :: batch_stats where
  "batch_stats_default =
     \<lparr>bst_batches_created = 0, bst_messages_batched = 0, bst_avg_messages_per_batch = 0,
      bst_avg_batch_size = 0\<rparr>"

definition batcher_new :: "usize \<Rightarrow> usize \<Rightarrow> message_batcher" where
  "batcher_new max_batch_size max_messages =
     \<lparr>mb_pending = [], mb_current_size = 0, mb_max_batch_size = max_batch_size,
      mb_max_messages = max_messages, mb_stats = batch_stats_default\<rparr>"

definition batcher_with_defaults :: message_batcher where
  "batcher_with_defaults = batcher_new (64 * 1024) 100"

text \<open>The serialised batch: number of messages, then each message behind its length.\<close>

definition batch_bytes :: "bytes list \<Rightarrow> bytes" where
  "batch_bytes ms = to_le_bytes (length ms) @ concat (map (\<lambda>m. to_le_bytes (length m) @ m) ms)"

definition batch_stats_update :: "nat \<Rightarrow> nat \<Rightarrow> batch_stats \<Rightarrow> batch_stats" where
  "batch_stats_update messages batch_len s =
     (let created = bst_batches_created s + 1;
          batched = bst_messages_batched s + word_of_nat messages
      in \<lparr>bst_batches_created = created,
          bst_messages_batched = batched,
          bst_avg_messages_per_batch = f64_div (f64_of_u64 batched) (f64_of_u64 created),
          bst_avg_batch_size =
            f64_div (f64_add (f64_mul (bst_avg_batch_size s) (f64_of_u64 (created - 1)))
                             (f64_of_nat batch_len))
                    (f64_of_u64 created)\<rparr>)"

definition flush :: "message_batcher \<Rightarrow> bytes \<times> message_batcher" where
  "flush b =
     (if mb_pending b = [] then ([], b)
      else let batch = batch_bytes (mb_pending b)
           in (batch,
               b\<lparr>mb_stats := batch_stats_update (length (mb_pending b)) (length batch) (mb_stats b),
                 mb_pending := [], mb_current_size := 0\<rparr>))"

definition add_message :: "bytes \<Rightarrow> message_batcher \<Rightarrow> bytes option \<times> message_batcher" where
  "add_message message b =
     (let message_size = length message
      in if mb_pending b \<noteq> []
            \<and> (mb_max_batch_size b < mb_current_size b + message_size
               \<or> mb_max_messages b \<le> length (mb_pending b))
         then let (batch, b1) = flush b
              in (Some batch, b1\<lparr>mb_pending := mb_pending b1 @ [message],
                                 mb_current_size := message_size\<rparr>)
         else let b1 = b\<lparr>mb_pending := mb_pending b @ [message],
                         mb_current_size := mb_current_size b + message_size\<rparr>
              in if mb_max_batch_size b1 \<le> mb_current_size b1
                    \<or> mb_max_messages b1 \<le> length (mb_pending b1)
                 then let (batch, b2) = flush b1 in (Some batch, b2)
                 else (None, b1))"

text \<open>
  The parser: the loop with its cursor; the error is the text of the \<open>io::Error\<close> of kind
  \<open>InvalidData\<close>.
\<close>

fun unbatch_loop :: "nat \<Rightarrow> nat \<Rightarrow> bytes \<Rightarrow> bytes list \<Rightarrow> string + bytes list" where
  "unbatch_loop 0 cursor batch messages = Inr messages"
| "unbatch_loop (Suc n) cursor batch messages =
     (if length batch < cursor + 4 then Inl ''Incomplete batch''
      else let msg_len = from_le_bytes (take 4 (drop cursor batch));
               cursor' = cursor + 4
           in if length batch < cursor' + msg_len then Inl ''Incomplete message''
              else unbatch_loop n (cursor' + msg_len) batch
                     (messages @ [take msg_len (drop cursor' batch)]))"

definition unbatch :: "bytes \<Rightarrow> string + bytes list" where
  "unbatch batch =
     (if length batch < 4 then Inl ''Batch too small''
      else unbatch_loop (from_le_bytes (take 4 batch)) 4 batch [])"

definition has_pending :: "message_batcher \<Rightarrow> bool" where
  "has_pending b \<longleftrightarrow> mb_pending b \<noteq> []"

definition pending_count :: "message_batcher \<Rightarrow> usize" where
  "pending_count b = length (mb_pending b)"

section \<open>The language of the parser\<close>

definition encode_messages :: "bytes list \<Rightarrow> bytes" where
  "encode_messages ms = concat (map (\<lambda>m. to_le_bytes (length m) @ m) ms)"

lemma encode_messages_simps [simp]:
  "encode_messages [] = []"
  "encode_messages (m # ms) = to_le_bytes (length m) @ m @ encode_messages ms"
  by (simp_all add: encode_messages_def)

lemma batch_bytes_eq: "batch_bytes ms = to_le_bytes (length ms) @ encode_messages ms"
  by (simp add: batch_bytes_def encode_messages_def)

lemma from_le_take [simp]: "from_le_bytes (take 4 bs) = from_le_bytes bs"
  by (simp add: from_le_bytes_def)

lemma unbatch_loop_encode:
  assumes "drop cursor batch = encode_messages ms @ rest" and "cursor \<le> length batch"
    and "\<forall>m\<in>set ms. length m < 2 ^ 32"
  shows "unbatch_loop (length ms) cursor batch acc = Inr (acc @ ms)"
  using assms
proof (induction ms arbitrary: cursor acc)
  case Nil
  then show ?case by simp
next
  case (Cons m ms)
  let ?tail = "encode_messages ms @ rest"
  have d: "drop cursor batch = to_le_bytes (length m) @ m @ ?tail"
    using Cons.prems(1) by simp
  have "length batch - cursor = 4 + length m + length ?tail"
    using arg_cong [OF d, of length] by (simp add: le.length_enc)
  then have room: "cursor + 4 + length m \<le> length batch" by linarith
  have len: "from_le_bytes (drop cursor batch) = length m"
    using le.prefix_body(1) [of m ?tail] Cons.prems(3) d by simp
  have "drop (cursor + 4) batch = drop 4 (drop cursor batch)"
    by (simp add: add.commute)
  also have "\<dots> = m @ ?tail"
    by (simp add: d le.length_enc)
  finally have body: "drop (cursor + 4) batch = m @ ?tail" .
  have "drop (cursor + 4 + length m) batch = drop (length m) (drop (cursor + 4) batch)"
    by (simp add: add.commute)
  then have "drop (cursor + 4 + length m) batch = ?tail"
    by (simp add: body)
  from Cons.IH [OF this room] Cons.prems(3) room show ?case
    by (simp add: len body)
qed

lemma unbatch_loop_Inr:
  assumes "unbatch_loop n cursor batch acc = Inr out" and "cursor \<le> length batch"
  shows "\<exists>ms rest. out = acc @ ms \<and> length ms = n \<and> (\<forall>m\<in>set ms. length m < 2 ^ 32)
     \<and> drop cursor batch = encode_messages ms @ rest"
  using assms
proof (induction n arbitrary: cursor acc)
  case 0
  then show ?case by simp
next
  case (Suc n)
  let ?d = "drop cursor batch" and ?len = "from_le_bytes (drop cursor batch)"
  let ?m = "take ?len (drop (cursor + 4) batch)"
  from Suc.prems have 4: "cursor + 4 \<le> length batch" and room: "cursor + 4 + ?len \<le> length batch"
    and loop: "unbatch_loop n (cursor + 4 + ?len) batch (acc @ [?m]) = Inr out"
    by (auto simp: Let_def split: if_splits)
  have d4: "4 \<le> length ?d" and dl: "4 + ?len \<le> length ?d"
    using 4 room by simp_all
  from Suc.IH [OF loop room] obtain ms rest where out: "out = (acc @ [?m]) @ ms" "length ms = n"
    "\<forall>m\<in>set ms. length m < 2 ^ 32" and rest: "drop (cursor + 4 + ?len) batch = encode_messages ms @ rest"
    by blast
  have m: "length ?m = ?len" using room by simp
  have "?d = to_le_bytes ?len @ ?m @ drop (4 + ?len) ?d"
    using le.prefix_canonical [OF d4 dl] by (simp add: add.commute)
  also have "drop (4 + ?len) ?d = encode_messages ms @ rest"
    using rest by (simp add: ac_simps)
  finally have "?d = encode_messages (?m # ms) @ rest"
    using m by simp
  moreover have "length ?m < 2 ^ 32"
    using le.dec_less [OF d4] m by simp
  ultimately show ?case
    using out by (intro exI [of _ "?m # ms"] exI [of _ rest]) simp
qed

lemma unbatch_batch_bytes:
  assumes "length ms < 2 ^ 32" and "\<forall>m\<in>set ms. length m < 2 ^ 32"
  shows "unbatch (batch_bytes ms @ rest) = Inr ms"
proof -
  define bs where "bs = batch_bytes ms @ rest"
  have n: "from_le_bytes bs = length ms" and d: "drop 4 bs = encode_messages ms @ rest" and l: "4 \<le> length bs"
    using assms(1) by (simp_all add: bs_def batch_bytes_eq le.dec_enc le.length_enc)
  show ?thesis
    using unbatch_loop_encode [OF d l, of "[]"] assms(2) l n
    by (simp add: unbatch_def flip: bs_def)
qed

lemma unbatch_Inr:
  assumes "unbatch bs = Inr ms"
  shows "\<exists>rest. bs = batch_bytes ms @ rest \<and> length ms < 2 ^ 32 \<and> (\<forall>m\<in>set ms. length m < 2 ^ 32)"
proof -
  from assms have 4: "4 \<le> length bs" and loop: "unbatch_loop (from_le_bytes bs) 4 bs [] = Inr ms"
    by (auto simp: unbatch_def split: if_splits)
  from unbatch_loop_Inr [OF loop 4] obtain rest where
    ms: "length ms = from_le_bytes bs" "\<forall>m\<in>set ms. length m < 2 ^ 32"
    and rest: "drop 4 bs = encode_messages ms @ rest" by auto
  have "bs = take 4 bs @ drop 4 bs" by simp
  then have "bs = batch_bytes ms @ rest"
    using le.enc_dec [OF 4] rest ms(1) by (simp add: batch_bytes_eq)
  then show ?thesis
    using ms le.dec_less [OF 4] by auto
qed

section \<open>A stream of messages through the batcher\<close>

definition batcher_ok :: "message_batcher \<Rightarrow> bool" where
  "batcher_ok b \<longleftrightarrow>
     mb_current_size b = sum_list (map length (mb_pending b))
     \<and> (length (mb_pending b) \<le> 1 \<or> mb_current_size b \<le> mb_max_batch_size b)
     \<and> length (mb_pending b) \<le> max 1 (mb_max_messages b)"

text \<open>A group that may leave the batcher: within the limits, or a single oversized message.\<close>

definition group_ok :: "usize \<Rightarrow> usize \<Rightarrow> bytes list \<Rightarrow> bool" where
  "group_ok max_size max_count g \<longleftrightarrow>
     g \<noteq> [] \<and> (length g = 1 \<or> sum_list (map length g) \<le> max_size) \<and> length g \<le> max 1 max_count"

lemma batcher_ok_new: "batcher_ok (batcher_new n k)"
  by (simp add: batcher_ok_def batcher_new_def)

lemma flush_pending:
  "mb_pending b \<noteq> [] \<Longrightarrow> fst (flush b) = batch_bytes (mb_pending b)"
  "mb_pending (snd (flush b)) = []"
  "mb_max_batch_size (snd (flush b)) = mb_max_batch_size b"
  "mb_max_messages (snd (flush b)) = mb_max_messages b"
  by (simp_all add: flush_def Let_def)

lemma flush_size: "batcher_ok b \<Longrightarrow> mb_current_size (snd (flush b)) = 0"
  by (simp add: flush_def Let_def batcher_ok_def)

text \<open>One message: at most one batch leaves, and nothing is lost, repeated or reordered.\<close>

lemma add_message_effect:
  assumes ok: "batcher_ok b" and step: "add_message m b = (r, b')"
  shows "batcher_ok b'"
    and "mb_max_batch_size b' = mb_max_batch_size b"
    and "mb_max_messages b' = mb_max_messages b"
    and "(case r of None \<Rightarrow> mb_pending b' = mb_pending b @ [m]
          | Some out \<Rightarrow> \<exists>g. out = batch_bytes g \<and> group_ok (mb_max_batch_size b) (mb_max_messages b) g
                          \<and> g @ mb_pending b' = mb_pending b @ [m])"
proof -
  let ?full = "mb_pending b \<noteq> [] \<and> (mb_max_batch_size b < mb_current_size b + length m
      \<or> mb_max_messages b \<le> length (mb_pending b))"
  let ?b1 = "b\<lparr>mb_pending := mb_pending b @ [m], mb_current_size := mb_current_size b + length m\<rparr>"
  have "batcher_ok b' \<and> mb_max_batch_size b' = mb_max_batch_size b
    \<and> mb_max_messages b' = mb_max_messages b
    \<and> (case r of None \<Rightarrow> mb_pending b' = mb_pending b @ [m]
          | Some out \<Rightarrow> \<exists>g. out = batch_bytes g \<and> group_ok (mb_max_batch_size b) (mb_max_messages b) g
                          \<and> g @ mb_pending b' = mb_pending b @ [m])"
  proof (cases ?full)
    case True
    then have r: "r = Some (fst (flush b))"
      and b': "b' = (snd (flush b))\<lparr>mb_pending := mb_pending (snd (flush b)) @ [m],
                        mb_current_size := length m\<rparr>"
      using step by (auto simp: add_message_def Let_def split_beta)
    have "group_ok (mb_max_batch_size b) (mb_max_messages b) (mb_pending b)"
      using ok True by (cases "mb_pending b") (auto simp: group_ok_def batcher_ok_def)
    then show ?thesis
      using True by (auto simp: r b' flush_pending batcher_ok_def)
  next
    case notfull: False
    have ok1: "batcher_ok ?b1"
      using ok notfull by (auto simp: batcher_ok_def)
    show ?thesis
    proof (cases "mb_max_batch_size ?b1 \<le> mb_current_size ?b1 \<or> mb_max_messages ?b1 \<le> length (mb_pending ?b1)")
      case True
      then have r: "r = Some (fst (flush ?b1))" and b': "b' = snd (flush ?b1)"
        using step notfull by (auto simp: add_message_def Let_def split_beta)
      have "group_ok (mb_max_batch_size b) (mb_max_messages b) (mb_pending ?b1)"
        using ok1 by (cases "mb_pending b") (auto simp: group_ok_def batcher_ok_def)
      then show ?thesis
        using flush_size [OF ok1] by (auto simp: r b' flush_pending batcher_ok_def)
    next
      case False
      then have "r = None" and "b' = ?b1"
        using step notfull by (auto simp: add_message_def Let_def split_beta)
      then show ?thesis using ok1 by simp
    qed
  qed
  then show "batcher_ok b'"
    and "mb_max_batch_size b' = mb_max_batch_size b"
    and "mb_max_messages b' = mb_max_messages b"
    and "(case r of None \<Rightarrow> mb_pending b' = mb_pending b @ [m]
          | Some out \<Rightarrow> \<exists>g. out = batch_bytes g \<and> group_ok (mb_max_batch_size b) (mb_max_messages b) g
                          \<and> g @ mb_pending b' = mb_pending b @ [m])"
    by blast+
qed

text \<open>The batches that leave while a list of messages is added.\<close>

fun batcher_run :: "bytes list \<Rightarrow> message_batcher \<Rightarrow> bytes list \<times> message_batcher" where
  "batcher_run [] b = ([], b)"
| "batcher_run (m # ms) b =
     (let (r, b') = add_message m b; (outs, b'') = batcher_run ms b'
      in (case r of None \<Rightarrow> outs | Some out \<Rightarrow> out # outs, b''))"

lemma batcher_run_groups:
  assumes "batcher_ok b" and "batcher_run ms b = (outs, b')"
  shows "batcher_ok b' \<and> mb_max_messages b' = mb_max_messages b
    \<and> (\<exists>gs. outs = map batch_bytes gs
         \<and> list_all (group_ok (mb_max_batch_size b) (mb_max_messages b)) gs
         \<and> concat gs @ mb_pending b' = mb_pending b @ ms)"
  using assms
proof (induction ms arbitrary: b outs)
  case Nil
  then show ?case by (auto intro: exI [of _ "[]"])
next
  case (Cons m ms)
  obtain r b1 where step: "add_message m b = (r, b1)" by fastforce
  obtain outs1 where run: "batcher_run ms b1 = (outs1, b')"
    and outs: "outs = (case r of None \<Rightarrow> outs1 | Some out \<Rightarrow> out # outs1)"
    using Cons.prems(2) step by (auto simp: Let_def split: prod.splits)
  note eff = add_message_effect [OF Cons.prems(1) step]
  from Cons.IH [OF eff(1) run] eff(2,3) obtain gs where
    ok': "batcher_ok b'" "mb_max_messages b' = mb_max_messages b"
    and gs: "outs1 = map batch_bytes gs" "list_all (group_ok (mb_max_batch_size b) (mb_max_messages b)) gs"
    "concat gs @ mb_pending b' = mb_pending b1 @ ms"
    by auto
  show ?case
  proof (cases r)
    case None
    then show ?thesis using ok' gs outs eff(4) by auto
  next
    case (Some out)
    then obtain g where "out = batch_bytes g" "group_ok (mb_max_batch_size b) (mb_max_messages b) g"
      "g @ mb_pending b1 = mb_pending b @ [m]"
      using eff(4) by auto
    then show ?thesis
      using Some ok' gs outs by (intro conjI exI [of _ "g # gs"]) auto
  qed
qed

section \<open>Properties\<close>

text \<open>
  C7: the exact language of \<open>unbatch\<close>. A byte string is accepted with result \<open>ms\<close> exactly when
  it is the serialisation of \<open>ms\<close> by \<open>flush\<close>, followed by anything at all, with the number of
  messages and every length within 32 bits. So parsing inverts serialising, no two message lists
  share a batch, the loop never reads past the end, and trailing bytes are silently ignored.
\<close>

theorem unbatch_language:
  "unbatch bs = Inr ms \<longleftrightarrow>
     (\<exists>rest. bs = batch_bytes ms @ rest \<and> length ms < 2 ^ 32 \<and> list_all (\<lambda>m. length m < 2 ^ 32) ms)"
  using unbatch_Inr [of bs ms] unbatch_batch_bytes [of ms] by (auto simp: list_all_iff)

text \<open>
  C6: the batcher is a faithful queue. Add any list of messages to a new batcher: unbatching the
  batches that left it, in order, and appending the messages still pending gives back the list
  exactly, with no loss, duplicate or reordering. A batch holds at most \<open>max_messages\<close> messages (at
  least one is let through, even with a limit of 0), and more than one only if together they are
  within \<open>max_batch_size\<close> bytes. That limit is on the messages alone, not on the batch as it is sent,
  which is longer by 4 bytes and 4 bytes per message. (The format has 32-bit fields: every message is
  shorter than \<open>2^32\<close> bytes, and fewer than \<open>2^32\<close> messages are added or the limit of messages is
  below \<open>2^32\<close>.)
\<close>

theorem batcher_stream:
  assumes "batcher_run ms (batcher_new max_size max_count) = (outs, b)"
    and "length ms < 2 ^ 32 \<or> max_count < 2 ^ 32" and "list_all (\<lambda>m. length m < 2 ^ 32) ms"
  shows "\<exists>gs. map unbatch outs = map Inr gs \<and> concat gs @ mb_pending b = ms
     \<and> list_all (\<lambda>g. g \<noteq> [] \<and> length g \<le> max 1 max_count
                   \<and> (1 < length g \<longrightarrow> sum_list (map length g) \<le> max_size)) gs
     \<and> map length outs = map (\<lambda>g. 4 + 4 * length g + sum_list (map length g)) gs
     \<and> length (mb_pending b) \<le> max 1 max_count"
proof -
  have new: "mb_max_batch_size (batcher_new max_size max_count) = max_size"
    "mb_max_messages (batcher_new max_size max_count) = max_count"
    "mb_pending (batcher_new max_size max_count) = []"
    by (simp_all add: batcher_new_def)
  from batcher_run_groups [OF batcher_ok_new assms(1)] obtain gs where
    ok: "batcher_ok b" "mb_max_messages b = max_count"
    and gs: "outs = map batch_bytes gs" "list_all (group_ok max_size max_count) gs"
      "concat gs @ mb_pending b = ms"
    unfolding new by auto
  have "unbatch (batch_bytes g) = Inr g" if g: "g \<in> set gs" for g
  proof -
    have "length g \<le> max 1 max_count"
      using g gs(2) by (auto simp: list_all_iff group_ok_def)
    moreover have "length g \<le> length (concat gs)"
      using g by (auto simp: length_concat intro: member_le_sum_list)
    then have "length g \<le> length ms" unfolding gs(3) [symmetric] by simp
    moreover have "set g \<subseteq> set ms"
      using g gs(3) by auto
    ultimately have "length g < 2 ^ 32" and "\<forall>m\<in>set g. length m < 2 ^ 32"
      using assms(2,3) by (auto simp: list_all_iff)
    then show ?thesis
      using unbatch_batch_bytes [of g "[]"] by simp
  qed
  then have "map unbatch outs = map Inr gs"
    by (simp add: gs(1))
  moreover have "length (batch_bytes g) = 4 + 4 * length g + sum_list (map length g)" for g
    by (induction g) (simp_all add: batch_bytes_eq le.length_enc)
  moreover have "list_all (\<lambda>g. g \<noteq> [] \<and> length g \<le> max 1 max_count
                   \<and> (1 < length g \<longrightarrow> sum_list (map length g) \<le> max_size)) gs"
    using gs(2) by (auto simp: list_all_iff group_ok_def)
  ultimately show ?thesis
    using ok gs by (intro exI [of _ gs]) (simp add: batcher_ok_def)
qed

theorem batcher_stream_witness:
  "\<exists>gs. map unbatch (fst (batcher_run [[1, 2], [3], [4, 5, 6]] (batcher_new 3 10))) = map Inr gs
     \<and> concat gs @ mb_pending (snd (batcher_run [[1, 2], [3], [4, 5, 6]] (batcher_new 3 10)))
        = [[1, 2], [3], [4, 5, 6]]"
  using batcher_stream [of "[[1, 2], [3], [4, 5, 6]]" 3 10 _ _, OF prod.collapse [symmetric]]
  by (simp del: batcher_run.simps) blast

end
