(* ===== verification/Compression.thy ===== *)
theory Compression
  imports Prelude Float64
begin

text \<open>
  The message compressor of \<open>src/compression.rs\<close>. Snappy is the third-party crate \<open>snap\<close>: its
  encoder and decoder are the arguments \<open>compress_vec\<close> and \<open>decompress_vec\<close> (\<open>Inl\<close> is the error,
  as its text); the only fact used of them, where it is needed, is that decoding inverts
  encoding. The header byte, the threshold, the fallbacks and the statistics are the code's.
\<close>

section \<open>Model\<close>

definition COMPRESSION_THRESHOLD :: usize where
  "COMPRESSION_THRESHOLD = 1024"

record compression_stats =
  cs_bytes_compressed :: u64
  cs_bytes_after_compression :: u64
  cs_bytes_decompressed :: u64
  cs_messages_compressed :: u64
  cs_messages_decompressed :: u64
  cs_messages_skipped :: u64

definition compression_stats_default :: compression_stats where
  "compression_stats_default =
     \<lparr>cs_bytes_compressed = 0, cs_bytes_after_compression = 0, cs_bytes_decompressed = 0,
      cs_messages_compressed = 0, cs_messages_decompressed = 0, cs_messages_skipped = 0\<rparr>"

definition compression_ratio :: "compression_stats \<Rightarrow> f64" where
  "compression_ratio s =
     (if 0 < cs_bytes_compressed s
      then f64_div (f64_of_u64 (cs_bytes_after_compression s)) (f64_of_u64 (cs_bytes_compressed s))
      else 1)"

definition space_saved :: "compression_stats \<Rightarrow> u64" where
  "space_saved s = sat_sub (cs_bytes_compressed s) (cs_bytes_after_compression s)"

definition space_saved_percent :: "compression_stats \<Rightarrow> f64" where
  "space_saved_percent s =
     (if 0 < cs_bytes_compressed s
      then f64_mul (f64_div (f64_of_u64 (space_saved s)) (f64_of_u64 (cs_bytes_compressed s))) 100
      else 0)"

text \<open>The state of a compressor is its statistics: the codec objects carry none between calls.\<close>

definition compress ::
  "(bytes \<Rightarrow> string + bytes) \<Rightarrow> bytes \<Rightarrow> compression_stats \<Rightarrow> (string + bytes) \<times> compression_stats" where
  "compress compress_vec data s =
     (if length data < COMPRESSION_THRESHOLD
      then (Inr (0 # data), s\<lparr>cs_messages_skipped := cs_messages_skipped s + 1\<rparr>)
      else case compress_vec data of
             Inl e \<Rightarrow> (Inl e, s)
           | Inr compressed \<Rightarrow>
               (if length data \<le> length compressed
                then (Inr (0 # data), s\<lparr>cs_messages_skipped := cs_messages_skipped s + 1\<rparr>)
                else (Inr (1 # compressed),
                      s\<lparr>cs_bytes_compressed := cs_bytes_compressed s + word_of_nat (length data),
                        cs_bytes_after_compression :=
                          cs_bytes_after_compression s + word_of_nat (length compressed),
                        cs_messages_compressed := cs_messages_compressed s + 1\<rparr>)))"

definition compressor_new :: compression_stats where
  "compressor_new = compression_stats_default"

definition compressor_reset_stats :: "compression_stats \<Rightarrow> compression_stats" where
  "compressor_reset_stats s = compression_stats_default"

definition decompress ::
  "(bytes \<Rightarrow> string + bytes) \<Rightarrow> bytes \<Rightarrow> compression_stats \<Rightarrow> (string + bytes) \<times> compression_stats" where
  "decompress decompress_vec data s =
     (case data of
        [] \<Rightarrow> (Inl ''Empty message'', s)
      | flag # payload \<Rightarrow>
          (if flag \<noteq> 1 then (Inr payload, s)
           else case decompress_vec payload of
                  Inl e \<Rightarrow> (Inl e, s)
                | Inr decompressed \<Rightarrow>
                    (Inr decompressed,
                     s\<lparr>cs_bytes_decompressed := cs_bytes_decompressed s + word_of_nat (length decompressed),
                       cs_messages_decompressed := cs_messages_decompressed s + 1\<rparr>)))"

section \<open>One message\<close>

lemma compress_Inr:
  assumes "fst (compress cv d s) = Inr out"
  shows "(out = 0 # d) \<or> (\<exists>c. cv d = Inr c \<and> out = 1 # c \<and> length c < length d \<and> 1024 \<le> length d)"
  using assms by (auto simp: compress_def COMPRESSION_THRESHOLD_def split: if_splits sum.splits)

text \<open>The contract of a lossless codec and of the header byte in front of it.\<close>

locale lossless_channel =
  fixes wrap :: "bytes \<Rightarrow> string + bytes" and unwrap :: "bytes \<Rightarrow> string + bytes"
  assumes unwrap_wrap: "wrap d = Inr out \<Longrightarrow> unwrap out = Inr d"
begin

lemma wrap_inject:
  assumes "wrap d = Inr out" and "wrap d' = Inr out"
  shows "d = d'"
  using unwrap_wrap [OF assms(1)] unwrap_wrap [OF assms(2)] by simp

lemma relay:
  assumes "list_all2 (\<lambda>d out. wrap d = Inr out) ds outs"
  shows "map unwrap outs = map Inr ds"
  using assms by (induction rule: list_all2_induct) (simp_all add: unwrap_wrap)

end

text \<open>Small messages cross the channel whatever the codec does: nothing of it is used.\<close>

definition small_compress :: "bytes \<Rightarrow> string + bytes" where
  "small_compress d =
     (if length d < COMPRESSION_THRESHOLD then fst (compress Inr d compression_stats_default)
      else Inl ''not small'')"

definition small_decompress :: "bytes \<Rightarrow> string + bytes" where
  "small_decompress d = fst (decompress (\<lambda>_. Inl ''unused'') d compression_stats_default)"

interpretation small: lossless_channel small_compress small_decompress
  by unfold_locales
     (auto simp: small_compress_def small_decompress_def compress_def decompress_def split: if_splits)

lemma compressor_channel:
  assumes "\<And>d c. cv d = Inr c \<Longrightarrow> dv c = Inr d"
  shows "lossless_channel (\<lambda>d. fst (compress cv d s)) (\<lambda>d. fst (decompress dv d s'))"
proof
  fix d out
  assume "fst (compress cv d s) = Inr out"
  from compress_Inr [OF this] show "fst (decompress dv out s') = Inr d"
    using assms by (auto simp: decompress_def)
qed

section \<open>Statistics over a sequence of messages\<close>

fun compress_run ::
  "(bytes \<Rightarrow> string + bytes) \<Rightarrow> bytes list \<Rightarrow> compression_stats \<Rightarrow> (string + bytes) list \<times> compression_stats"
  where
  "compress_run cv [] s = ([], s)"
| "compress_run cv (d # ds) s =
     (let (r, s1) = compress cv d s; (rs, s2) = compress_run cv ds s1 in (r # rs, s2))"

text \<open>What the successful messages amount to: their number, their input and their output bytes.\<close>

definition sent_count :: "(string + bytes) list \<Rightarrow> nat" where
  "sent_count rs = length [r. r \<leftarrow> rs, \<not> isl r]"

definition sent_input :: "bytes list \<Rightarrow> (string + bytes) list \<Rightarrow> nat" where
  "sent_input ds rs = sum_list [length d. (d, r) \<leftarrow> zip ds rs, \<not> isl r]"

definition sent_output :: "(string + bytes) list \<Rightarrow> nat" where
  "sent_output rs = sum_list [length (projr r). r \<leftarrow> rs, \<not> isl r]"

lemmas sent_defs = sent_count_def sent_input_def sent_output_def

lemma sent_Cons:
  "sent_count (r # rs) = (if isl r then 0 else 1) + sent_count rs"
  "sent_input (d # ds) (r # rs) = (if isl r then 0 else length d) + sent_input ds rs"
  "sent_output (r # rs) = (if isl r then 0 else length (projr r)) + sent_output rs"
  by (simp_all add: sent_defs)

text \<open>The counters of a compressor as natural numbers: input, output, compressed, skipped.\<close>

definition counters_are :: "compression_stats \<Rightarrow> nat \<Rightarrow> nat \<Rightarrow> nat \<Rightarrow> nat \<Rightarrow> bool" where
  "counters_are s i out c k \<longleftrightarrow>
     unat (cs_bytes_compressed s) = i \<and> unat (cs_bytes_after_compression s) = out
     \<and> unat (cs_messages_compressed s) = c \<and> unat (cs_messages_skipped s) = k"

lemma unat_add_of_nat:
  "unat (w :: u64) + n < 2 ^ 64 \<Longrightarrow> unat (w + word_of_nat n) = unat w + n"
  by (subst unat_add_lem [THEN iffD1]) (simp_all add: unat_of_nat_small)

lemma unat_add_1: "unat (w :: u64) + 1 < 2 ^ 64 \<Longrightarrow> unat (w + 1) = unat w + 1"
  using unat_Suc_no_wrap [of w] by simp

lemma compress_step_counters:
  assumes "counters_are s i out c k"
    and "i + length d < 2 ^ 64" and "out \<le> i" and "c + k + 1 < 2 ^ 64"
  shows "\<exists>i' out' c' k'. counters_are (snd (compress cv d s)) i' out' c' k'
     \<and> out' \<le> i' \<and> i' \<le> i + length d
     \<and> (case fst (compress cv d s) of
           Inl e \<Rightarrow> i' = i \<and> out' = out \<and> c' + k' = c + k
         | Inr r \<Rightarrow> c' + k' = c + k + 1 \<and> length r + (i' - out') = length d + 1 + (i - out))"
proof -
  have less: "length x < length d \<Longrightarrow> out + length x < 2 ^ 64" for x :: bytes
    using assms(2,3) by simp
  show ?thesis
    using assms
    by (auto simp: compress_def counters_are_def unat_add_of_nat unat_add_1 less split: sum.split)
qed

lemma compress_run_counters:
  assumes "counters_are s i out c k" and "compress_run cv ds s = (rs, s')"
    and "i + sum_list (map length ds) < 2 ^ 64" and "out \<le> i" and "c + k + length ds < 2 ^ 64"
  shows "\<exists>i' out' c' k'. counters_are s' i' out' c' k' \<and> out' \<le> i'
     \<and> c' + k' = c + k + sent_count rs
     \<and> sent_output rs + (i' - out') = sent_input ds rs + sent_count rs + (i - out)"
  using assms
proof (induction ds arbitrary: s i out c k rs)
  case Nil
  then show ?case by (auto simp: sent_defs)
next
  case (Cons d ds)
  obtain r s1 where step: "compress cv d s = (r, s1)" by fastforce
  obtain rs1 where run: "compress_run cv ds s1 = (rs1, s')" and rs: "rs = r # rs1"
    using Cons.prems(2) step by (auto simp: Let_def split: prod.splits)
  have pre: "i + length d < 2 ^ 64" "c + k + 1 < 2 ^ 64"
    using Cons.prems by simp_all
  from compress_step_counters [OF Cons.prems(1) pre(1) Cons.prems(4) pre(2), of cv]
  obtain i1 out1 c1 k1 where c1: "counters_are s1 i1 out1 c1 k1" "out1 \<le> i1" "i1 \<le> i + length d"
    and r: "case r of Inl e \<Rightarrow> i1 = i \<and> out1 = out \<and> c1 + k1 = c + k
         | Inr x \<Rightarrow> c1 + k1 = c + k + 1 \<and> length x + (i1 - out1) = length d + 1 + (i - out)"
    using step by auto
  have "i1 + sum_list (map length ds) < 2 ^ 64" "c1 + k1 + length ds < 2 ^ 64"
    using Cons.prems c1(3) r by (auto split: sum.splits)
  from Cons.IH [OF c1(1) run this(1) c1(2) this(2)] obtain i' out' c' k' where
    fin: "counters_are s' i' out' c' k'" "out' \<le> i'"
    and acc: "c' + k' = c1 + k1 + sent_count rs1"
      "sent_output rs1 + (i' - out') = sent_input ds rs1 + sent_count rs1 + (i1 - out1)"
    by blast
  have "c' + k' = c + k + sent_count rs
     \<and> sent_output rs + (i' - out') = sent_input (d # ds) rs + sent_count rs + (i - out)"
    using acc r by (cases r) (simp_all add: rs sent_Cons)
  with fin show ?case by blast
qed

section \<open>Properties\<close>

text \<open>
  C8: compression is lossless and bounded. If Snappy's decoder inverts its encoder, whatever
  \<open>compress\<close> outputs for a message, \<open>decompress\<close> returns that message; the output is at most one
  byte longer than the message, and a message below the threshold is never touched by Snappy. So
  different messages never have the same wire form.
\<close>

theorem compress_roundtrip:
  assumes "\<And>d c. compress_vec d = Inr c \<Longrightarrow> decompress_vec c = Inr d"
    and "fst (compress compress_vec data s) = Inr out"
  shows "fst (decompress decompress_vec out s') = Inr data
       \<and> length out \<le> length data + 1
       \<and> (length data < 1024 \<longrightarrow> out = 0 # data)"
proof -
  have channel: "lossless_channel (\<lambda>d. fst (compress compress_vec d s))
                        (\<lambda>d. fst (decompress decompress_vec d s'))"
    by (rule compressor_channel [OF assms(1)])
  show ?thesis
    using lossless_channel.unwrap_wrap [OF channel assms(2)] compress_Inr [OF assms(2)]
    by auto
qed

text \<open>A codec for concrete runs: it halves the messages that are some bytes written twice.\<close>

definition halve :: "bytes \<Rightarrow> string + bytes" where
  "halve d = (let h = take (length d div 2) d in if d = h @ h then Inr h else Inl ''odd'')"

definition twice :: "bytes \<Rightarrow> string + bytes" where
  "twice c = Inr (c @ c)"

lemma twice_halve: "halve d = Inr c \<Longrightarrow> twice c = Inr d"
  by (auto simp: halve_def twice_def Let_def split: if_splits)

lemma halve_replicate: "halve (replicate (n + n) x) = Inr (replicate n x)"
  by (simp add: halve_def Let_def replicate_add)

lemma compress_replicate:
  assumes "1024 \<le> n + n"
  shows "fst (compress halve (replicate (n + n) x) s) = Inr (1 # replicate n x)"
  using assms by (simp add: compress_def COMPRESSION_THRESHOLD_def halve_replicate del: replicate_add)

theorem compress_roundtrip_witness:
  "fst (decompress twice (1 # replicate 1000 7) compression_stats_default) = Inr (replicate (1000 + 1000) 7)"
  using compress_roundtrip [of halve twice "replicate (1000 + 1000) 7" compression_stats_default
      "1 # replicate 1000 7" compression_stats_default, OF twice_halve compress_replicate]
  by simp

text \<open>
  C33: the statistics account for every byte. After any sequence of messages on a fresh compressor
  (fewer than \<open>2^64\<close> messages and input bytes), each successful message is counted once, as
  compressed or as skipped; the bytes sent plus \<open>space_saved\<close> are the bytes given plus one flag
  per message; and the reported ratio is between 0 and 1, whatever Snappy does.
\<close>

theorem compress_accounting:
  assumes "compress_run compress_vec ds compression_stats_default = (rs, s)"
    and "sum_list (map length ds) < 2 ^ 64" and "length ds < 2 ^ 64"
  shows "unat (cs_messages_compressed s) + unat (cs_messages_skipped s) = sent_count rs
    \<and> sent_output rs + unat (space_saved s) = sent_input ds rs + sent_count rs
    \<and> 0 \<le> compression_ratio s \<and> compression_ratio s \<le> 1"
proof -
  have "counters_are compression_stats_default 0 0 0 0"
    by (simp add: counters_are_def compression_stats_default_def)
  from compress_run_counters [OF this assms(1)] assms(2,3) obtain i out c k where
    "counters_are s i out c k" "out \<le> i" "c + k = sent_count rs"
    "sent_output rs + (i - out) = sent_input ds rs + sent_count rs"
    by auto
  moreover from this have "0 \<le> compression_ratio s" "compression_ratio s \<le> 1"
    by (auto simp: compression_ratio_def counters_are_def f64_of_u64_def f64_div_def
        f64_ratio_le_1 [unfolded f64_div_def] word_less_nat_alt)
  ultimately show ?thesis
    by (simp add: counters_are_def space_saved_def machine_simps)
qed

theorem compress_accounting_witness:
  "let (rs, s) = compress_run halve [[1, 2], replicate (1000 + 1000) 7] compression_stats_default
   in unat (cs_messages_compressed s) + unat (cs_messages_skipped s) = sent_count rs
    \<and> sent_output rs + unat (space_saved s) = sent_input [[1, 2], replicate (1000 + 1000) 7] rs + sent_count rs
    \<and> 0 \<le> compression_ratio s \<and> compression_ratio s \<le> 1"
  using compress_accounting [of halve "[[1, 2], replicate (1000 + 1000) 7]" _ _, OF prod.collapse [symmetric]]
  by (simp add: split_beta del: compress_run.simps)

end
