(* ===== verification/Gossip.thy ===== *)
theory Gossip
  imports Messages Errors "HOL-Library.Multiset"
begin

text \<open>
  The gossip protocol (\<open>src/gossip.rs\<close>): subscriptions, the cache that deduplicates messages, its
  eviction, and the traffic statistics.

  \<open>libp2p\<close>'s \<open>TopicHash\<close> and \<open>MessageId\<close> are type variables; \<open>IdentTopic::hash\<close> and
  \<open>MessageId::new\<close> are the arguments \<open>topic_hash\<close> and \<open>message_id_new\<close>. The two mutexes are
  modelled by what \<open>lock\<close> can answer: a flag per mutex says that it is poisoned, and then the
  code takes its error branch. Readings of the clock are arguments, one for each call of
  \<open>Instant::now\<close> in the source.
\<close>

section \<open>State\<close>

record 'h topic_info =
  ti_name :: string
  ti_hash :: 'h
  ti_messages_sent :: u64
  ti_messages_received :: u64
  ti_last_activity :: instant

record 'id cached_message =
  cm_id :: 'id
  cm_data :: bytes
  cm_cached_at :: instant
  cm_seen_count :: u32

record gossip_stats =
  gs_total_sent :: u64
  gs_total_received :: u64
  gs_total_deduplicated :: u64
  gs_total_bytes_sent :: u64
  gs_total_bytes_received :: u64

definition gossip_stats_default :: gossip_stats where
  "gossip_stats_default =
     \<lparr>gs_total_sent = 0, gs_total_received = 0, gs_total_deduplicated = 0,
      gs_total_bytes_sent = 0, gs_total_bytes_received = 0\<rparr>"

record ('h, 'id) gossip_protocol =
  gp_topics :: "(string, 'h topic_info) hmap"
  gp_cache :: "('id, 'id cached_message) hmap"
  gp_cache_poisoned :: bool
  gp_max_cache_size :: usize
  gp_cache_ttl :: duration
  gp_stats :: gossip_stats
  gp_stats_poisoned :: bool

definition gossip_with_config :: "usize \<Rightarrow> duration \<Rightarrow> ('h, 'id) gossip_protocol" where
  "gossip_with_config max_cache_size cache_ttl =
     \<lparr>gp_topics = [], gp_cache = [], gp_cache_poisoned = False, gp_max_cache_size = max_cache_size,
      gp_cache_ttl = cache_ttl, gp_stats = gossip_stats_default, gp_stats_poisoned = False\<rparr>"

definition gossip_new :: "('h, 'id) gossip_protocol" where
  "gossip_new =
     \<lparr>gp_topics = [], gp_cache = [], gp_cache_poisoned = False, gp_max_cache_size = 10000,
      gp_cache_ttl = duration_from_secs 120, gp_stats = gossip_stats_default,
      gp_stats_poisoned = False\<rparr>"

definition topic_transactions :: string where
  "topic_transactions = ''silverbitcoin/transactions/1.0.0''"

definition topic_batches :: string where
  "topic_batches = ''silverbitcoin/batches/1.0.0''"

definition topic_work_packages :: string where
  "topic_work_packages = ''silverbitcoin/work-packages/1.0.0''"

definition topic_miner_shares :: string where
  "topic_miner_shares = ''silverbitcoin/miner-shares/1.0.0''"

section \<open>Operations\<close>

text \<open>\<open>if let Ok(mut stats) = self.stats.lock()\<close>: the update is skipped on a poisoned mutex.\<close>

definition with_stats ::
  "(gossip_stats \<Rightarrow> gossip_stats) \<Rightarrow> ('h, 'id) gossip_protocol \<Rightarrow> ('h, 'id) gossip_protocol" where
  "with_stats f g = (if gp_stats_poisoned g then g else g\<lparr>gp_stats := f (gp_stats g)\<rparr>)"

definition subscribe ::
  "(string \<Rightarrow> 'h) \<Rightarrow> instant \<Rightarrow> string \<Rightarrow> ('h, 'id) gossip_protocol
     \<Rightarrow> (network_error + unit) \<times> ('h, 'id) gossip_protocol" where
  "subscribe topic_hash now topic g =
     (if hm_has (gp_topics g) topic then (Inr (), g)
      else (Inr (),
            g\<lparr>gp_topics := hm_put topic
                \<lparr>ti_name = topic, ti_hash = topic_hash topic, ti_messages_sent = 0,
                 ti_messages_received = 0, ti_last_activity = now\<rparr> (gp_topics g)\<rparr>))"

definition unsubscribe ::
  "string \<Rightarrow> ('h, 'id) gossip_protocol \<Rightarrow> (network_error + unit) \<times> ('h, 'id) gossip_protocol" where
  "unsubscribe topic g =
     (if hm_has (gp_topics g) topic then (Inr (), g\<lparr>gp_topics := hm_del topic (gp_topics g)\<rparr>)
      else (Inl (InvalidMessage (''Not subscribed to topic: '' @ topic)), g))"

definition prepare_message ::
  "(('tx, 'batch) network_message \<Rightarrow> string + bytes) \<Rightarrow> instant \<Rightarrow> string \<Rightarrow> ('tx, 'batch) network_message
     \<Rightarrow> ('h, 'id) gossip_protocol \<Rightarrow> (network_error + bytes) \<times> ('h, 'id) gossip_protocol" where
  "prepare_message serialize now topic message g =
     (if \<not> hm_has (gp_topics g) topic
      then (Inl (InvalidMessage (''Not subscribed to topic: '' @ topic)), g)
      else case message_to_bytes serialize message of
             Inl e \<Rightarrow> (Inl (Serialization e), g)
           | Inr data \<Rightarrow>
               (if 10 * 1024 * 1024 < length data
                then (Inl (MessageTooLarge (length data) (10 * 1024 * 1024)), g)
                else (Inr data,
                      with_stats (\<lambda>s. s\<lparr>gs_total_sent := gs_total_sent s + 1,
                                        gs_total_bytes_sent := gs_total_bytes_sent s + word_of_nat (length data)\<rparr>)
                        (g\<lparr>gp_topics := hm_modify topic
                             (\<lambda>ti. ti\<lparr>ti_messages_sent := ti_messages_sent ti + 1,
                                      ti_last_activity := now\<rparr>) (gp_topics g)\<rparr>))))"

definition evict_old_messages :: "instant \<Rightarrow> ('h, 'id) gossip_protocol \<Rightarrow> ('h, 'id) gossip_protocol" where
  "evict_old_messages now g =
     (if gp_cache_poisoned g then g
      else let cache = hm_retain (\<lambda>_ cached. duration_since now (cm_cached_at cached) < gp_cache_ttl g)
                         (gp_cache g)
           in if gp_max_cache_size g \<le> hm_size cache
              then let to_remove = gp_max_cache_size g div 10;
                       entries = sort_key snd (map (\<lambda>(id, cached). (id, cm_cached_at cached)) cache)
                   in g\<lparr>gp_cache := foldl (\<lambda>c (id, _). hm_del id c) cache (take to_remove entries)\<rparr>
              else g\<lparr>gp_cache := cache\<rparr>)"

definition cache_message ::
  "instant \<Rightarrow> instant \<Rightarrow> 'id \<Rightarrow> bytes \<Rightarrow> ('h, 'id) gossip_protocol \<Rightarrow> ('h, 'id) gossip_protocol" where
  "cache_message evict_now now message_id data g =
     (let needs_eviction = (\<not> gp_cache_poisoned g \<and> gp_max_cache_size g \<le> hm_size (gp_cache g));
          g1 = (if needs_eviction then evict_old_messages evict_now g else g)
      in if gp_cache_poisoned g1 then g1
         else g1\<lparr>gp_cache := hm_put message_id
                   \<lparr>cm_id = message_id, cm_data = data, cm_cached_at = now, cm_seen_count = 1\<rparr>
                   (gp_cache g1)\<rparr>)"

text \<open>The readings of the clock in one delivery: topic activity, eviction, insertion.\<close>

record gossip_clock =
  gc_topic :: instant
  gc_evict :: instant
  gc_cache :: instant

definition handle_received_message ::
  "(bytes \<Rightarrow> string + ('tx, 'batch) network_message) \<Rightarrow> gossip_clock \<Rightarrow> 'id \<Rightarrow> string \<Rightarrow> bytes
     \<Rightarrow> ('h, 'id) gossip_protocol
     \<Rightarrow> (network_error + ('tx, 'batch) network_message option) \<times> ('h, 'id) gossip_protocol" where
  "handle_received_message deserialize clock message_id topic data g =
     (if \<not> gp_cache_poisoned g \<and> hm_has (gp_cache g) message_id
      then (Inr None,
            with_stats (\<lambda>s. s\<lparr>gs_total_deduplicated := gs_total_deduplicated s + 1\<rparr>)
              (g\<lparr>gp_cache := hm_modify message_id
                   (\<lambda>c. c\<lparr>cm_seen_count := cm_seen_count c + 1\<rparr>) (gp_cache g)\<rparr>))
      else
        let g1 = g\<lparr>gp_topics := hm_modify topic
                     (\<lambda>ti. ti\<lparr>ti_messages_received := ti_messages_received ti + 1,
                              ti_last_activity := gc_topic clock\<rparr>) (gp_topics g)\<rparr>;
            g2 = with_stats (\<lambda>s. s\<lparr>gs_total_received := gs_total_received s + 1,
                     gs_total_bytes_received := gs_total_bytes_received s + word_of_nat (length data)\<rparr>) g1;
            g3 = cache_message (gc_evict clock) (gc_cache clock) message_id data g2
        in case message_from_bytes deserialize data of
             Inl e \<Rightarrow> (Inl (Deserialization (''Failed to deserialize message: '' @ e)), g3)
           | Inr message \<Rightarrow> (Inr (Some message), g3))"

definition get_topic_info :: "string \<Rightarrow> ('h, 'id) gossip_protocol \<Rightarrow> 'h topic_info option" where
  "get_topic_info topic g = hm_get (gp_topics g) topic"

definition subscribed_topics :: "('h, 'id) gossip_protocol \<Rightarrow> string list" where
  "subscribed_topics g = map fst (gp_topics g)"

definition gossip_get_stats :: "('h, 'id) gossip_protocol \<Rightarrow> gossip_stats" where
  "gossip_get_stats g = (if gp_stats_poisoned g then gossip_stats_default else gp_stats g)"

definition clear_cache :: "('h, 'id) gossip_protocol \<Rightarrow> ('h, 'id) gossip_protocol" where
  "clear_cache g = (if gp_cache_poisoned g then g else g\<lparr>gp_cache := []\<rparr>)"

definition cache_size :: "('h, 'id) gossip_protocol \<Rightarrow> usize" where
  "cache_size g = (if gp_cache_poisoned g then 0 else hm_size (gp_cache g))"

definition broadcast_topic :: "message_type \<Rightarrow> network_error + string" where
  "broadcast_topic message_type =
     (case message_type of
        MT_Transaction \<Rightarrow> Inr topic_transactions
      | MT_Batch \<Rightarrow> Inr topic_batches
      | MT_WorkPackage \<Rightarrow> Inr topic_work_packages
      | MT_MinerShare \<Rightarrow> Inr topic_miner_shares
      | _ \<Rightarrow> Inl (InvalidMessage (''Unsupported message type for broadcast: ''
                                   @ message_type_debug message_type)))"

text \<open>\<open>min_by_key\<close> returns the first of several minimal entries, as \<open>arg_min_list\<close> does.\<close>

definition remove_oldest :: "('id, 'id cached_message) hmap \<Rightarrow> ('id, 'id cached_message) hmap" where
  "remove_oldest cache =
     (if cache = [] then cache
      else hm_del (fst (arg_min_list (\<lambda>(_, msg). cm_cached_at msg) cache)) cache)"

definition broadcast ::
  "(bytes \<Rightarrow> 'id) \<Rightarrow> instant \<Rightarrow> message_type \<Rightarrow> bytes \<Rightarrow> ('h, 'id) gossip_protocol
     \<Rightarrow> (network_error + unit) \<times> ('h, 'id) gossip_protocol" where
  "broadcast message_id_new now message_type data g =
     (case broadcast_topic message_type of
        Inl e \<Rightarrow> (Inl e, g)
      | Inr topic \<Rightarrow>
          if \<not> hm_has (gp_topics g) topic
          then (Inl (InvalidMessage (''Not subscribed to topic: '' @ topic)), g)
          else if \<not> hm_has (gp_topics g) topic
          then (Inl (InvalidMessage (''Topic '' @ topic @ '' not subscribed'')), g)
          else if gp_cache_poisoned g
          then (Inl (InvalidMessage ''Failed to acquire cache lock''), g)
          else let message_id = message_id_new data
               in if hm_has (gp_cache g) message_id then (Inr (), g)
                  else let cache = (if gp_max_cache_size g \<le> hm_size (gp_cache g)
                                    then remove_oldest (gp_cache g) else gp_cache g);
                           g1 = g\<lparr>gp_cache := hm_put message_id
                                    \<lparr>cm_id = message_id, cm_data = data, cm_cached_at = now,
                                     cm_seen_count = 1\<rparr> cache\<rparr>
                       in if gp_stats_poisoned g1
                          then (Inl (InvalidMessage ''Failed to acquire stats lock''), g1)
                          else (Inr (), with_stats (\<lambda>s. s\<lparr>gs_total_sent := gs_total_sent s + 1,
                                   gs_total_bytes_sent := gs_total_bytes_sent s + word_of_nat (length data)\<rparr>) g1))"

lemma broadcast_topic_Inr:
  "broadcast_topic mt = Inr topic \<longleftrightarrow> (mt, topic) \<in>
     {(MT_Transaction, ''silverbitcoin/transactions/1.0.0''), (MT_Batch, ''silverbitcoin/batches/1.0.0''),
      (MT_WorkPackage, ''silverbitcoin/work-packages/1.0.0''), (MT_MinerShare, ''silverbitcoin/miner-shares/1.0.0'')}"
  by (cases mt) (auto simp: broadcast_topic_def topic_transactions_def topic_batches_def
      topic_work_packages_def topic_miner_shares_def)

section \<open>Eviction\<close>

lemma remove_oldest_size:
  assumes "hm_wf cache" and "cache \<noteq> []"
  shows "hm_size (remove_oldest cache) = hm_size cache - 1"
proof -
  let ?e = "arg_min_list (\<lambda>(_, msg). cm_cached_at msg) cache"
  have "?e \<in> set cache" by (rule arg_min_list_in [OF assms(2)])
  then have "hm_get cache (fst ?e) \<noteq> None"
    by (auto simp: hm_get_None)
  then show ?thesis
    using assms by (auto simp: remove_oldest_def hm_simps)
qed

text \<open>The entry that goes is no newer than any other; the others stay.\<close>

lemma remove_oldest_gets:
  assumes "hm_wf cache" and "cache \<noteq> []"
  obtains k e where "hm_get cache k = Some e"
    and "\<And>i e'. hm_get cache i = Some e' \<Longrightarrow> cm_cached_at e \<le> cm_cached_at e'"
    and "\<And>i. hm_get (remove_oldest cache) i = (if i = k then None else hm_get cache i)"
proof -
  let ?f = "\<lambda>(_, msg). cm_cached_at msg"
  obtain k e where ke: "arg_min_list ?f cache = (k, e)" by fastforce
  then have "(k, e) \<in> set cache" using arg_min_list_in [OF assms(2), of ?f] by simp
  then have "hm_get cache k = Some e" using assms(1) by simp
  moreover have "cm_cached_at e \<le> cm_cached_at e'" if "hm_get cache i = Some e'" for i e'
  proof -
    have "?f (k, e) = Min (?f ` set cache)"
      using f_arg_min_list_f [OF assms(2), of ?f] ke by simp
    moreover have "?f (i, e') \<in> ?f ` set cache"
      using that by (intro imageI) (rule map_of_SomeD)
    ultimately show ?thesis by (simp add: Min_le)
  qed
  moreover have "hm_get (remove_oldest cache) i = (if i = k then None else hm_get cache i)" for i
    using assms ke by (simp add: remove_oldest_def hm_simps)
  ultimately show thesis by (rule that)
qed

lemma remove_oldest_less:
  "hm_wf cache \<Longrightarrow> hm_size cache = n \<Longrightarrow> 10 \<le> n \<Longrightarrow> hm_size (remove_oldest cache) < n"
  using remove_oldest_size [of cache] by (cases cache) auto

lemma remove_oldest_wf: "hm_wf cache \<Longrightarrow> hm_wf (remove_oldest cache)"
  by (simp add: remove_oldest_def hm_simps)

text \<open>The entries that \<open>evict_old_messages\<close> removes although they are fresh.\<close>

definition age_entries :: "('id, 'id cached_message) hmap \<Rightarrow> ('id \<times> instant) list" where
  "age_entries cache = sort_key snd (map (\<lambda>(id, cached). (id, cm_cached_at cached)) cache)"

definition evicted_fresh :: "('h, 'id) gossip_protocol \<Rightarrow> ('id, 'id cached_message) hmap \<Rightarrow> ('id \<times> instant) list" where
  "evicted_fresh g fresh =
     (if gp_max_cache_size g \<le> hm_size fresh
      then take (gp_max_cache_size g div 10) (age_entries fresh) else [])"

definition fresh_part :: "instant \<Rightarrow> ('h, 'id) gossip_protocol \<Rightarrow> ('id, 'id cached_message) hmap" where
  "fresh_part now g =
     hm_retain (\<lambda>_ cached. duration_since now (cm_cached_at cached) < gp_cache_ttl g) (gp_cache g)"

lemma foldl_del_pairs: "foldl (\<lambda>c (id, _). hm_del id c) m ps = foldl (\<lambda>c p. hm_del (fst p) c) m ps"
  by (induction ps arbitrary: m) (simp_all add: split_beta)

lemma evict_cache:
  assumes "\<not> gp_cache_poisoned g"
  shows "evict_old_messages now g =
    g\<lparr>gp_cache := foldl (\<lambda>c k. hm_del k c) (fresh_part now g)
                    (map fst (evicted_fresh g (fresh_part now g)))\<rparr>"
  using assms
  by (simp add: evict_old_messages_def Let_def evicted_fresh_def age_entries_def foldl_map
      foldl_del_pairs flip: fresh_part_def)

lemma age_entries_set: "set (age_entries c) = (\<lambda>(id, m). (id, cm_cached_at m)) ` set c"
  by (simp add: age_entries_def)

lemma age_entries_keys: "distinct (map fst (age_entries c)) = hm_wf c"
proof -
  have "mset (map fst (age_entries c)) = mset (map fst c)"
    by (simp add: age_entries_def split_beta multiset.map_comp o_def)
  then show ?thesis by (metis mset_eq_imp_distinct_iff)
qed

lemma evicted_fresh_keys:
  assumes "hm_wf c"
  shows "distinct (map fst (evicted_fresh g c))"
    and "\<forall>k\<in>set (map fst (evicted_fresh g c)). hm_get c k \<noteq> None"
proof -
  show "distinct (map fst (evicted_fresh g c))"
    using assms by (simp add: evicted_fresh_def age_entries_keys distinct_take flip: take_map)
  have "set (evicted_fresh g c) \<subseteq> set (age_entries c)"
    by (auto simp: evicted_fresh_def dest: in_set_takeD split: if_splits)
  from image_mono [OF this, of fst] have "fst ` set (evicted_fresh g c) \<subseteq> fst ` set c"
    by (simp add: age_entries_set image_image split_beta)
  then show "\<forall>k\<in>set (map fst (evicted_fresh g c)). hm_get c k \<noteq> None"
    by (auto simp: hm_get_None simp del: map_of_eq_None_iff)
qed

lemma length_evicted_fresh:
  "length (evicted_fresh g c) = (if gp_max_cache_size g \<le> hm_size c then gp_max_cache_size g div 10 else 0)"
  by (auto simp: evicted_fresh_def age_entries_def)

lemma fresh_part_wf: "hm_wf (gp_cache g) \<Longrightarrow> hm_wf (fresh_part now g)"
  by (simp add: fresh_part_def hm_simps)

lemma fresh_part_size: "hm_size (fresh_part now g) \<le> hm_size (gp_cache g)"
  by (simp add: fresh_part_def)

lemma evict_wf: "hm_wf (gp_cache g) \<Longrightarrow> hm_wf (gp_cache (evict_old_messages now g))"
  by (cases "gp_cache_poisoned g")
     (simp_all add: evict_cache hm.foldl_del_wf fresh_part_wf, simp add: evict_old_messages_def)

lemma evict_size:
  assumes "hm_wf (gp_cache g)" and "\<not> gp_cache_poisoned g"
  shows "hm_size (gp_cache (evict_old_messages now g)) =
     hm_size (fresh_part now g) - length (evicted_fresh g (fresh_part now g))"
  using hm.foldl_del_count [OF fresh_part_wf [OF assms(1)] evicted_fresh_keys [OF fresh_part_wf [OF assms(1)]]]
  by (simp add: evict_cache assms(2))

lemma evict_room:
  assumes "hm_wf (gp_cache g)" and "\<not> gp_cache_poisoned g"
    and "10 \<le> gp_max_cache_size g" and "hm_size (gp_cache g) \<le> gp_max_cache_size g"
  shows "hm_size (gp_cache (evict_old_messages now g)) < gp_max_cache_size g"
proof -
  have "hm_size (fresh_part now g) \<le> gp_max_cache_size g"
    using fresh_part_size [of now g] assms(4) by simp
  then show ?thesis
    using assms(3) by (auto simp: evict_size [OF assms(1,2)] length_evicted_fresh)
qed

lemma evict_frame [simp]:
  "gp_max_cache_size (evict_old_messages now g) = gp_max_cache_size g"
  "gp_cache_poisoned (evict_old_messages now g) = gp_cache_poisoned g"
  "gp_stats (evict_old_messages now g) = gp_stats g"
  "gp_stats_poisoned (evict_old_messages now g) = gp_stats_poisoned g"
  "gp_cache_ttl (evict_old_messages now g) = gp_cache_ttl g"
  by (simp_all add: evict_old_messages_def Let_def)

lemma take_drop_sorted:
  assumes "sorted (map f xs)" and "a \<in> set (take n xs)" and "b \<in> set (drop n xs)"
  shows "f a \<le> f b"
proof -
  have "sorted (map f (take n xs) @ map f (drop n xs))"
    using assms(1) by (simp flip: map_append)
  then show ?thesis using assms(2,3) by (auto simp: sorted_append)
qed

lemma evict_get:
  assumes "hm_wf (gp_cache g)" and "\<not> gp_cache_poisoned g"
  shows "hm_get (gp_cache (evict_old_messages now g)) k =
     (if k \<in> set (map fst (evicted_fresh g (fresh_part now g))) then None
      else hm_get (fresh_part now g) k)"
  by (simp add: evict_cache assms(2) hm.foldl_del_get del: set_map)

lemma evicted_fresh_oldest:
  assumes "hm_wf c" and "k \<in> set (map fst (evicted_fresh g c))" and "hm_get c k = Some m"
    and "k' \<notin> set (map fst (evicted_fresh g c))" and "hm_get c k' = Some m'"
  shows "cm_cached_at m \<le> cm_cached_at m'"
proof -
  let ?es = "age_entries c" and ?n = "gp_max_cache_size g div 10"
  have ev: "evicted_fresh g c = take ?n ?es"
    using assms(2) by (auto simp: evicted_fresh_def split: if_splits)
  have in_entries: "(k, t) \<in> set ?es \<longleftrightarrow> (\<exists>m. hm_get c k = Some m \<and> t = cm_cached_at m)" for k t
    using hm_in_get [OF assms(1)] by (force simp: age_entries_set)
  obtain t where t: "(k, t) \<in> set (take ?n ?es)"
    using assms(2) by (auto simp: ev)
  then have "t = cm_cached_at m"
    using in_entries [of k t] assms(3) by (auto dest: in_set_takeD)
  moreover have "(k', cm_cached_at m') \<in> set (drop ?n ?es)"
  proof -
    have "(k', cm_cached_at m') \<in> set (take ?n ?es @ drop ?n ?es)"
      using in_entries assms(5) by auto
    moreover have "(k', cm_cached_at m') \<notin> set (take ?n ?es)"
      using assms(4) by (force simp: ev)
    ultimately show ?thesis by (simp only: set_append Un_iff) blast
  qed
  moreover have "sorted (map snd ?es)"
    by (simp add: age_entries_def)
  ultimately show ?thesis
    using take_drop_sorted [OF _ t, of snd] by fastforce
qed

section \<open>The bound of the cache\<close>

definition cache_ok :: "('h, 'id) gossip_protocol \<Rightarrow> bool" where
  "cache_ok g \<longleftrightarrow> hm_wf (gp_cache g) \<and> 10 \<le> gp_max_cache_size g
     \<and> hm_size (gp_cache g) \<le> gp_max_cache_size g"

datatype ('tx, 'batch, 'id) gossip_call =
    GC_Subscribe instant string
  | GC_Unsubscribe string
  | GC_Prepare instant string "('tx, 'batch) network_message"
  | GC_Receive gossip_clock 'id string bytes
  | GC_Broadcast instant message_type bytes
  | GC_Clear

fun gossip_step ::
  "(string \<Rightarrow> 'h) \<Rightarrow> (('tx, 'batch) network_message \<Rightarrow> string + bytes)
     \<Rightarrow> (bytes \<Rightarrow> string + ('tx, 'batch) network_message) \<Rightarrow> (bytes \<Rightarrow> 'id)
     \<Rightarrow> ('tx, 'batch, 'id) gossip_call \<Rightarrow> ('h, 'id) gossip_protocol \<Rightarrow> ('h, 'id) gossip_protocol" where
  "gossip_step th ser de mid (GC_Subscribe now topic) g = snd (subscribe th now topic g)"
| "gossip_step th ser de mid (GC_Unsubscribe topic) g = snd (unsubscribe topic g)"
| "gossip_step th ser de mid (GC_Prepare now topic m) g = snd (prepare_message ser now topic m g)"
| "gossip_step th ser de mid (GC_Receive clock i topic data) g =
     snd (handle_received_message de clock i topic data g)"
| "gossip_step th ser de mid (GC_Broadcast now mt data) g = snd (broadcast mid now mt data g)"
| "gossip_step th ser de mid GC_Clear g = clear_cache g"

lemma with_stats_frame [simp]:
  "gp_cache (with_stats f g) = gp_cache g"
  "gp_topics (with_stats f g) = gp_topics g"
  "gp_max_cache_size (with_stats f g) = gp_max_cache_size g"
  "gp_cache_poisoned (with_stats f g) = gp_cache_poisoned g"
  "gp_stats_poisoned (with_stats f g) = gp_stats_poisoned g"
  "gp_cache_ttl (with_stats f g) = gp_cache_ttl g"
  "gp_stats (with_stats f g) = (if gp_stats_poisoned g then gp_stats g else f (gp_stats g))"
  by (simp_all add: with_stats_def)

lemma cache_message_ok:
  assumes "cache_ok g"
  shows "cache_ok (cache_message e n i d g)"
proof (cases "gp_cache_poisoned g")
  case True
  then show ?thesis using assms by (simp add: cache_message_def)
next
  case False
  let ?g1 = "if gp_max_cache_size g \<le> hm_size (gp_cache g) then evict_old_messages e g else g"
  have "hm_wf (gp_cache ?g1)" and "hm_size (gp_cache ?g1) < gp_max_cache_size g"
    using assms evict_room [of g e] evict_wf [of g e] False by (auto simp: cache_ok_def)
  then have "hm_size (hm_put i m (gp_cache ?g1)) \<le> gp_max_cache_size g"
    and "hm_wf (hm_put i m (gp_cache ?g1))" for m
    by (rule hm.put_within) (rule hm.wf_put, fact)
  then show ?thesis
    using assms False by (auto simp: cache_message_def cache_ok_def Let_def)
qed

lemma broadcast_ok:
  assumes "cache_ok g"
  shows "cache_ok (snd (broadcast mid now mt data g))"
proof -
  let ?c = "if gp_max_cache_size g \<le> hm_size (gp_cache g) then remove_oldest (gp_cache g) else gp_cache g"
  have "hm_wf ?c" and "hm_size ?c < gp_max_cache_size g"
    using assms remove_oldest_less [of "gp_cache g", OF _ refl] remove_oldest_wf [of "gp_cache g"]
    by (auto simp: cache_ok_def le_antisym)
  then have "hm_size (hm_put i m ?c) \<le> gp_max_cache_size g" and "hm_wf (hm_put i m ?c)" for i m
    by (rule hm.put_within) (rule hm.wf_put, fact)
  then show ?thesis
    using assms
    by (auto simp: broadcast_def cache_ok_def Let_def split: sum.split)
qed

lemma gossip_step_ok: "cache_ok g \<Longrightarrow> cache_ok (gossip_step th ser de mid op g)"
proof (induction op)
  case (GC_Receive clock i topic data)
  let ?g = "with_stats (\<lambda>s. s\<lparr>gs_total_received := gs_total_received s + 1,
                     gs_total_bytes_received := gs_total_bytes_received s + word_of_nat (length data)\<rparr>)
              (g\<lparr>gp_topics := hm_modify topic
                     (\<lambda>ti. ti\<lparr>ti_messages_received := ti_messages_received ti + 1,
                              ti_last_activity := gc_topic clock\<rparr>) (gp_topics g)\<rparr>)"
  have "cache_ok ?g" using GC_Receive by (simp add: cache_ok_def)
  from cache_message_ok [OF this] GC_Receive show ?case
    by (auto simp: handle_received_message_def Let_def cache_ok_def hm_simps split: sum.split)
qed (auto simp: subscribe_def unsubscribe_def prepare_message_def clear_cache_def cache_ok_def
      broadcast_ok [unfolded cache_ok_def] split: sum.split)

lemma gossip_step_max: "gp_max_cache_size (gossip_step th ser de mid op g) = gp_max_cache_size g"
  by (induction op)
     (auto simp: subscribe_def unsubscribe_def prepare_message_def clear_cache_def broadcast_def
       handle_received_message_def cache_message_def Let_def split: sum.split)

interpretation gossip_cache: invariant_machine "gossip_step th ser de mid"
    "\<lambda>g. cache_ok g \<and> gp_max_cache_size g = cap"
  by unfold_locales (simp add: gossip_step_ok gossip_step_max)

section \<open>Sequences of deliveries\<close>

type_synonym 'id delivery = "gossip_clock \<times> 'id \<times> string \<times> bytes"

abbreviation (input) delivery_id :: "'id delivery \<Rightarrow> 'id" where
  "delivery_id d \<equiv> fst (snd d)"

fun receive_run ::
  "(bytes \<Rightarrow> string + ('tx, 'batch) network_message) \<Rightarrow> 'id delivery list \<Rightarrow> ('h, 'id) gossip_protocol
     \<Rightarrow> (network_error + ('tx, 'batch) network_message option) list \<times> ('h, 'id) gossip_protocol" where
  "receive_run de [] g = ([], g)"
| "receive_run de ((clock, i, topic, data) # ds) g =
     (let (r, g1) = handle_received_message de clock i topic data g; (rs, g2) = receive_run de ds g1
      in (r # rs, g2))"

definition healthy :: "('h, 'id) gossip_protocol \<Rightarrow> bool" where
  "healthy g \<longleftrightarrow> \<not> gp_cache_poisoned g \<and> \<not> gp_stats_poisoned g \<and> hm_wf (gp_cache g)"

text \<open>The keys of the cache.\<close>

definition cached_ids :: "('h, 'id) gossip_protocol \<Rightarrow> 'id set" where
  "cached_ids g = fst ` set (gp_cache g)"

lemma cached_ids_iff: "i \<in> cached_ids g \<longleftrightarrow> hm_get (gp_cache g) i \<noteq> None"
  by (simp add: cached_ids_def hm_get_None)

lemma cached_ids_card: "hm_wf (gp_cache g) \<Longrightarrow> card (cached_ids g) = hm_size (gp_cache g)"
  using distinct_card [of "map fst (gp_cache g)"] by (simp add: cached_ids_def)

lemma receive_duplicate:
  assumes "healthy g" and "i \<in> cached_ids g" and "handle_received_message de clock i topic data g = (r, g')"
  shows "r = Inr None" and "healthy g'" and "cached_ids g' = cached_ids g"
    and "gp_stats g' = (gp_stats g)\<lparr>gs_total_deduplicated := gs_total_deduplicated (gp_stats g) + 1\<rparr>"
    and "gp_topics g' = gp_topics g" and "gp_max_cache_size g' = gp_max_cache_size g"
proof -
  have "\<not> gp_cache_poisoned g \<and> hm_has (gp_cache g) i"
    using assms(1,2) by (simp add: healthy_def cached_ids_iff)
  with assms(3) have r: "r = Inr None" and g': "g' = with_stats
      (\<lambda>s. s\<lparr>gs_total_deduplicated := gs_total_deduplicated s + 1\<rparr>)
      (g\<lparr>gp_cache := hm_modify i (\<lambda>c. c\<lparr>cm_seen_count := cm_seen_count c + 1\<rparr>) (gp_cache g)\<rparr>)"
    by (simp_all add: handle_received_message_def)
  show "r = Inr None" by (fact r)
  show "healthy g'" using assms(1) by (simp add: g' healthy_def hm_simps)
  show "cached_ids g' = cached_ids g"
    by (simp add: g' cached_ids_def hm_keys_modify flip: set_map)
  show "gp_stats g' = (gp_stats g)\<lparr>gs_total_deduplicated := gs_total_deduplicated (gp_stats g) + 1\<rparr>"
    using assms(1) by (simp add: g' healthy_def)
  show "gp_topics g' = gp_topics g" and "gp_max_cache_size g' = gp_max_cache_size g"
    by (simp_all add: g')
qed

text \<open>A message that is not in the cache: it is counted, cached and decoded.\<close>

definition decoded ::
  "(bytes \<Rightarrow> string + ('tx, 'batch) network_message) \<Rightarrow> bytes
     \<Rightarrow> network_error + ('tx, 'batch) network_message option" where
  "decoded de data =
     (case de data of Inl e \<Rightarrow> Inl (Deserialization (''Failed to deserialize message: '' @ e))
                    | Inr m \<Rightarrow> Inr (Some m))"

definition counted :: "bytes \<Rightarrow> gossip_stats \<Rightarrow> gossip_stats" where
  "counted data s = s\<lparr>gs_total_received := gs_total_received s + 1,
       gs_total_bytes_received := gs_total_bytes_received s + word_of_nat (length data)\<rparr>"

lemma receive_new:
  assumes "healthy g" and "i \<notin> cached_ids g" and "handle_received_message de clock i topic data g = (r, g')"
  shows "r = decoded de data" and "healthy g'" and "gp_stats g' = counted data (gp_stats g)"
    and "gp_max_cache_size g' = gp_max_cache_size g" and "gp_cache_ttl g' = gp_cache_ttl g"
    and "gp_cache g' = hm_put i \<lparr>cm_id = i, cm_data = data, cm_cached_at = gc_cache clock, cm_seen_count = 1\<rparr>
           (if gp_max_cache_size g \<le> hm_size (gp_cache g)
            then gp_cache (evict_old_messages (gc_evict clock) g) else gp_cache g)"
proof -
  let ?g2 = "with_stats (\<lambda>s. s\<lparr>gs_total_received := gs_total_received s + 1,
                     gs_total_bytes_received := gs_total_bytes_received s + word_of_nat (length data)\<rparr>)
              (g\<lparr>gp_topics := hm_modify topic
                     (\<lambda>ti. ti\<lparr>ti_messages_received := ti_messages_received ti + 1,
                              ti_last_activity := gc_topic clock\<rparr>) (gp_topics g)\<rparr>)"
  have evict: "gp_cache (evict_old_messages n ?g2) = gp_cache (evict_old_messages n g)" for n
    by (simp add: evict_old_messages_def Let_def)
  have new: "hm_get (gp_cache g) i = None"
    using assms(2) by (simp add: cached_ids_iff)
  have r: "r = decoded de data" and g': "g' = cache_message (gc_evict clock) (gc_cache clock) i data ?g2"
    using assms(3)
    by (simp_all add: handle_received_message_def new decoded_def message_from_bytes_def Let_def split: sum.splits)
  show "r = decoded de data" by (fact r)
  show "gp_stats g' = counted data (gp_stats g)" and "gp_max_cache_size g' = gp_max_cache_size g"
    and "gp_cache_ttl g' = gp_cache_ttl g"
    using assms(1) by (simp_all add: g' cache_message_def Let_def healthy_def counted_def)
  show cache: "gp_cache g' = hm_put i \<lparr>cm_id = i, cm_data = data, cm_cached_at = gc_cache clock, cm_seen_count = 1\<rparr>
           (if gp_max_cache_size g \<le> hm_size (gp_cache g)
            then gp_cache (evict_old_messages (gc_evict clock) g) else gp_cache g)"
    using assms(1) by (simp add: g' cache_message_def Let_def healthy_def evict)
  have "hm_wf (gp_cache g')"
    using assms(1) evict_wf [of g "gc_evict clock"] by (simp add: cache healthy_def hm.wf_put)
  moreover have "\<not> gp_cache_poisoned g'" and "\<not> gp_stats_poisoned g'"
    using assms(1) by (simp_all add: healthy_def g' cache_message_def Let_def)
  ultimately show "healthy g'" by (simp add: healthy_def)
qed

lemma receive_new_room:
  assumes "healthy g" and "i \<notin> cached_ids g" and "handle_received_message de clock i topic data g = (r, g')"
    and "hm_size (gp_cache g) < gp_max_cache_size g"
  shows "cached_ids g' = insert i (cached_ids g)"
  using receive_new(6) [OF assms(1-3)] assms(4)
  by (auto simp: cached_ids_iff hm_get_put split: if_splits)

lemma decoded_not_None: "decoded de data \<noteq> Inr None"
  by (simp add: decoded_def split: sum.split)

lemma receive_run_new_iff:
  assumes "healthy g" and "card (cached_ids g \<union> delivery_id ` set ds) \<le> gp_max_cache_size g"
    and "receive_run de ds g = (rs, g')"
  shows "length rs = length ds
     \<and> (\<forall>n<length ds. rs ! n =
          (if delivery_id (ds ! n) \<in> cached_ids g \<union> delivery_id ` set (take n ds) then Inr None
           else decoded de (snd (snd (snd (ds ! n))))))
     \<and> gs_total_received (gp_stats g') = gs_total_received (gp_stats g)
          + word_of_nat (card (delivery_id ` set ds - cached_ids g))
     \<and> gs_total_received (gp_stats g') + gs_total_deduplicated (gp_stats g') =
          gs_total_received (gp_stats g) + gs_total_deduplicated (gp_stats g) + word_of_nat (length ds)"
  using assms
proof (induction ds arbitrary: g rs)
  case Nil
  then show ?case by simp
next
  case (Cons d ds)
  obtain clock i topic data where d: "d = (clock, i, topic, data)" by (cases d)
  obtain r g1 where step: "handle_received_message de clock i topic data g = (r, g1)" by fastforce
  obtain rs1 where run: "receive_run de ds g1 = (rs1, g')" and rs: "rs = r # rs1"
    using Cons.prems(3) step by (auto simp: Let_def d split: prod.splits)
  have wf: "hm_wf (gp_cache g)" using Cons.prems(1) by (simp add: healthy_def)
  show ?case
  proof (cases "i \<in> cached_ids g")
    case True
    note dup = receive_duplicate [OF Cons.prems(1) True step]
    have "cached_ids g \<union> delivery_id ` set ds = cached_ids g \<union> delivery_id ` set (d # ds)"
      using True by (auto simp: d)
    then have "card (cached_ids g1 \<union> delivery_id ` set ds) \<le> gp_max_cache_size g1"
      using Cons.prems(2) by (simp only: dup)
    from Cons.IH [OF dup(2) this run] show ?thesis
      by (auto simp: rs dup True d All_less_Suc2 algebra_simps)
  next
    case False
    note new = receive_new [OF Cons.prems(1) False step]
    have "hm_size (gp_cache g) < card (insert i (cached_ids g))"
    proof -
      have "finite (cached_ids g)" by (simp add: cached_ids_def)
      then show ?thesis using False by (simp add: cached_ids_card [OF wf])
    qed
    also have "\<dots> \<le> card (cached_ids g \<union> delivery_id ` set (d # ds))"
      by (rule card_mono) (auto simp: cached_ids_def d)
    finally have room: "hm_size (gp_cache g) < gp_max_cache_size g"
      using Cons.prems(2) by simp
    note ids = receive_new_room [OF Cons.prems(1) False step room]
    have "cached_ids g1 \<union> delivery_id ` set ds = cached_ids g \<union> delivery_id ` set (d # ds)"
      and "card (delivery_id ` set (d # ds) - cached_ids g) = Suc (card (delivery_id ` set ds - cached_ids g1))"
    proof -
      show "cached_ids g1 \<union> delivery_id ` set ds = cached_ids g \<union> delivery_id ` set (d # ds)"
        by (auto simp: ids d)
      have "delivery_id ` set (d # ds) - cached_ids g = insert i (delivery_id ` set ds - cached_ids g1)"
        using False by (auto simp: ids d)
      then show "card (delivery_id ` set (d # ds) - cached_ids g) = Suc (card (delivery_id ` set ds - cached_ids g1))"
        by (simp add: ids)
    qed
    note card = this
    have "card (cached_ids g1 \<union> delivery_id ` set ds) \<le> gp_max_cache_size g1"
      using Cons.prems(2) by (simp only: new card(1))
    from Cons.IH [OF new(2) this run] have len: "length rs1 = length ds"
      and res: "\<forall>n<length ds. rs1 ! n =
          (if delivery_id (ds ! n) \<in> cached_ids g1 \<union> delivery_id ` set (take n ds) then Inr None
           else decoded de (snd (snd (snd (ds ! n)))))"
      and recv: "gs_total_received (gp_stats g') = gs_total_received (gp_stats g1)
          + word_of_nat (card (delivery_id ` set ds - cached_ids g1))"
      and total: "gs_total_received (gp_stats g') + gs_total_deduplicated (gp_stats g') =
          gs_total_received (gp_stats g1) + gs_total_deduplicated (gp_stats g1) + word_of_nat (length ds)"
      by blast+
    have "\<forall>n<length (d # ds). rs ! n =
          (if delivery_id ((d # ds) ! n) \<in> cached_ids g \<union> delivery_id ` set (take n (d # ds)) then Inr None
           else decoded de (snd (snd (snd ((d # ds) ! n)))))"
      using res False by (auto simp: rs new(1) d ids All_less_Suc2)
    moreover have "gs_total_received (gp_stats g') = gs_total_received (gp_stats g)
          + word_of_nat (card (delivery_id ` set (d # ds) - cached_ids g))"
      by (subst card(2)) (simp add: recv new(3) counted_def)
    ultimately show ?thesis
      using total len by (simp add: rs new(3) counted_def algebra_simps)
  qed
qed

section \<open>A cache below ten entries\<close>

text \<open>All the clocks of the deliveries lie within one lifetime of a cache entry.\<close>

definition within_ttl :: "instant \<Rightarrow> duration \<Rightarrow> 'id delivery list \<Rightarrow> bool" where
  "within_ttl t ttl ds \<longleftrightarrow> 0 < ttl \<and> list_all (\<lambda>d. t \<le> gc_cache (fst d) \<and> gc_evict (fst d) < t + ttl) ds"

definition cached_since :: "instant \<Rightarrow> ('h, 'id) gossip_protocol \<Rightarrow> bool" where
  "cached_since t g \<longleftrightarrow> list_all (\<lambda>(_, m). t \<le> cm_cached_at m) (gp_cache g)"

lemma evict_nothing:
  assumes "healthy g" and "cached_since t g" and "now < t + gp_cache_ttl g" and "gp_max_cache_size g < 10"
    and "0 < gp_cache_ttl g"
  shows "gp_cache (evict_old_messages now g) = gp_cache g"
proof -
  have "fresh_part now g = gp_cache g"
    using assms(2,3,5) by (auto simp: fresh_part_def cached_since_def list_all_iff duration_since_def
        intro!: filter_True)
  moreover have "evicted_fresh g c = []" for c
    using assms(4) by (simp add: evicted_fresh_def)
  ultimately show ?thesis
    using assms(1) by (simp add: evict_cache healthy_def)
qed

lemma cached_since_put:
  assumes "cached_since t g" and "gp_cache g' = hm_put i m (gp_cache g)" and "t \<le> cm_cached_at m"
    and "hm_get (gp_cache g) i = None"
  shows "cached_since t g'"
proof -
  have "hm_put i m c = c @ [(i, m)]" if "i \<notin> fst ` set c" for c
    using that by (induction c) auto
  then show ?thesis
    using assms by (simp add: cached_since_def hm_get_None)
qed

lemma small_cache_run:
  assumes "healthy g" and "cached_since t g" and "gp_max_cache_size g < 10"
    and "within_ttl t (gp_cache_ttl g) ds" and "distinct (map delivery_id ds)"
    and "delivery_id ` set ds \<inter> cached_ids g = {}" and "receive_run de ds g = (rs, g')"
  shows "cache_size g' = cache_size g + length ds"
  using assms
proof (induction ds arbitrary: g rs)
  case Nil
  then show ?case by simp
next
  case (Cons d ds)
  obtain clock i topic data where d: "d = (clock, i, topic, data)" by (cases d)
  obtain r g1 where step: "handle_received_message de clock i topic data g = (r, g1)" by fastforce
  obtain rs1 where run: "receive_run de ds g1 = (rs1, g')"
    using Cons.prems(7) step by (auto simp: Let_def d split: prod.splits)
  have i: "i \<notin> cached_ids g" and clock: "t \<le> gc_cache clock" "gc_evict clock < t + gp_cache_ttl g" "0 < gp_cache_ttl g"
    using Cons.prems(4,6) by (auto simp: d within_ttl_def)
  note new = receive_new [OF Cons.prems(1) i step]
  let ?m = "\<lparr>cm_id = i, cm_data = data, cm_cached_at = gc_cache clock, cm_seen_count = 1\<rparr>"
  have put: "gp_cache g1 = hm_put i ?m (gp_cache g)"
    using new(6) evict_nothing [OF Cons.prems(1,2) clock(2) Cons.prems(3) clock(3)] by simp
  have none: "hm_get (gp_cache g) i = None"
    using i by (simp add: cached_ids_iff)
  have since: "cached_since t g1"
    by (rule cached_since_put [OF Cons.prems(2) put _ none]) (simp add: clock)
  have ids: "cached_ids g1 = insert i (cached_ids g)"
    by (auto simp: cached_ids_iff put hm_get_put split: if_splits)
  have "cache_size g1 = Suc (cache_size g)"
    using Cons.prems(1) new(2) none by (simp add: cache_size_def healthy_def put hm_size_put)
  moreover have "cache_size g' = cache_size g1 + length ds"
    using Cons.prems(3-6) new(4,5) ids
    by (intro Cons.IH [OF new(2) since _ _ _ _ run]) (auto simp: within_ttl_def d)
  ultimately show ?case by simp
qed

lemma gossip_with_config_fields [simp]:
  "gp_topics (gossip_with_config n ttl) = []"
  "gp_cache (gossip_with_config n ttl) = []"
  "gp_cache_poisoned (gossip_with_config n ttl) = False"
  "gp_max_cache_size (gossip_with_config n ttl) = n"
  "gp_cache_ttl (gossip_with_config n ttl) = ttl"
  "gp_stats (gossip_with_config n ttl) = gossip_stats_default"
  "gp_stats_poisoned (gossip_with_config n ttl) = False"
  by (simp_all add: gossip_with_config_def)

lemma healthy_new: "healthy (gossip_with_config n ttl)"
  by (simp add: healthy_def)

lemma cached_ids_new: "cached_ids (gossip_with_config n ttl) = {}"
  by (simp add: cached_ids_def)

section \<open>Properties\<close>

text \<open>
  C19: the deduplication cache is bounded. For a configured size of at least ten, after any
  sequence of subscriptions, publications, deliveries, broadcasts and clears, at any times, the
  cache holds at most that many messages and no message identifier twice.
\<close>

theorem gossip_cache_bound:
  assumes "10 \<le> max_cache_size"
  shows "cache_size (fold (gossip_step th ser de mid) calls (gossip_with_config max_cache_size ttl))
           \<le> max_cache_size
       \<and> distinct (map fst (gp_cache (fold (gossip_step th ser de mid) calls
                                         (gossip_with_config max_cache_size ttl))))"
proof -
  have "cache_ok (gossip_with_config max_cache_size ttl)
      \<and> gp_max_cache_size (gossip_with_config max_cache_size ttl) = max_cache_size"
    using assms by (simp add: cache_ok_def)
  from gossip_cache.run_inv [OF this, of th ser de mid calls] show ?thesis
    by (simp add: cache_ok_def cache_size_def)
qed

text \<open>A concrete setting: identifiers are the data, and every message is a ping.\<close>

definition ping_decode :: "bytes \<Rightarrow> string + (unit, unit) network_message" where
  "ping_decode data = (if data = [] then Inl ''eof'' else Inr (NM_Ping (word_of_nat (length data))))"

definition clock_at :: "instant \<Rightarrow> gossip_clock" where
  "clock_at t = \<lparr>gc_topic = t, gc_evict = t, gc_cache = t\<rparr>"

theorem gossip_cache_bound_witness:
  "cache_size (fold (gossip_step (\<lambda>t. t) (\<lambda>_. Inr []) ping_decode (\<lambda>d. d))
      [GC_Subscribe 0 topic_batches, GC_Receive (clock_at 1) [1] topic_batches [1],
       GC_Broadcast 2 MT_Batch [2]] (gossip_with_config 10 60)) \<le> 10"
  using gossip_cache_bound [of 10 "\<lambda>t. t" "\<lambda>_. Inr []" ping_decode "\<lambda>d. d"
      "[GC_Subscribe 0 topic_batches, GC_Receive (clock_at 1) [1] topic_batches [1],
       GC_Broadcast 2 MT_Batch [2]]" 60]
  by simp

text \<open>
  C2: exactly-once delivery. As long as no more distinct identifiers arrive than the cache holds,
  each message is decoded and handed on at its first delivery and only then: the result of a
  delivery is \<open>Ok(None)\<close> exactly when its identifier came before. The counters agree: as many
  messages received as distinct identifiers, and every other delivery counted as deduplicated.
\<close>

theorem gossip_exactly_once:
  assumes "card (delivery_id ` set ds) \<le> max_cache_size"
    and "receive_run de ds (gossip_with_config max_cache_size ttl) = (rs, g)"
  shows "length rs = length ds
     \<and> (\<forall>n<length ds. rs ! n =
          (if delivery_id (ds ! n) \<in> delivery_id ` set (take n ds) then Inr None
           else decoded de (snd (snd (snd (ds ! n))))))
     \<and> gs_total_received (gp_stats g) = word_of_nat (card (delivery_id ` set ds))
     \<and> gs_total_received (gp_stats g) + gs_total_deduplicated (gp_stats g) = word_of_nat (length ds)"
proof -
  have room: "card (cached_ids (gossip_with_config max_cache_size ttl) \<union> delivery_id ` set ds)
      \<le> gp_max_cache_size (gossip_with_config max_cache_size ttl)"
    using assms(1) by (simp add: cached_ids_new)
  have default: "gs_total_received gossip_stats_default = 0"
    "gs_total_deduplicated gossip_stats_default = 0"
    by (simp_all add: gossip_stats_default_def)
  show ?thesis
    using receive_run_new_iff [OF healthy_new room assms(2)]
    unfolding cached_ids_new gossip_with_config_fields default Un_empty_left Diff_empty add_0 .
qed

theorem gossip_exactly_once_witness:
  "let ds = [(clock_at 1, [1], topic_batches, [1]), (clock_at 2, [1], topic_batches, [1]),
             (clock_at 3, [2], topic_batches, [2])];
       (rs, g) = receive_run ping_decode ds (gossip_with_config 2 60 :: (string, bytes) gossip_protocol)
   in length rs = 3 \<and> rs ! 1 = Inr None \<and> rs ! 2 = Inr (Some (NM_Ping 1))
      \<and> gs_total_received (gp_stats g) = 2"
proof -
  let ?ds = "[(clock_at 1, [1], topic_batches, [1]), (clock_at 2, [1], topic_batches, [1]),
             (clock_at 3, [2], topic_batches, [2])] :: bytes delivery list"
  obtain rs and g :: "(string, bytes) gossip_protocol"
    where run: "receive_run ping_decode ?ds (gossip_with_config 2 60) = (rs, g)"
    by fastforce
  have "card (delivery_id ` set ?ds) \<le> 2" by simp
  note gossip_exactly_once [OF this run]
  then have "length rs = length ?ds \<and> rs ! 1 = Inr None \<and> rs ! 2 = Inr (Some (NM_Ping 1))
      \<and> gs_total_received (gp_stats g) = 2"
    by (simp add: decoded_def ping_decode_def)
  then show ?thesis
    unfolding Let_def run by simp
qed

text \<open>
  A cache configured below ten entries is never trimmed by deliveries. \<open>max_cache_size / 10\<close>
  is zero, so the eviction of the oldest tenth removes nothing: deliver any number of distinct
  messages within the lifetime of a cache entry and all of them stay.
\<close>

lemma gossip_small_cache_unbounded:
  assumes "max_cache_size < 10" and "distinct (map delivery_id ds)"
    and "within_ttl t ttl ds"
    and "receive_run de ds (gossip_with_config max_cache_size ttl) = (rs, g)"
  shows "cache_size g = length ds"
proof -
  have "cached_since t (gossip_with_config max_cache_size ttl)"
    by (simp add: cached_since_def)
  from small_cache_run [OF healthy_new this _ _ assms(2) _ assms(4)] assms(1,3) show ?thesis
    by (simp add: cached_ids_new cache_size_def)
qed

lemma gossip_small_cache_unbounded_witness:
  "cache_size (snd (receive_run ping_decode
      [(clock_at 1, ''a'', topic_batches, [1]), (clock_at 2, ''b'', topic_batches, [2]),
       (clock_at 3, ''c'', topic_batches, [3])] (gossip_with_config 1 60))) = 3"
  using gossip_small_cache_unbounded [of 1 "[(clock_at 1, ''a'', topic_batches, [1]),
      (clock_at 2, ''b'', topic_batches, [2]), (clock_at 3, ''c'', topic_batches, [3])]" 1 60 ping_decode,
      OF _ _ _ prod.collapse [symmetric]]
  by (simp add: within_ttl_def clock_at_def numeral_3_eq_3 del: receive_run.simps)

text \<open>
  C30: eviction keeps the newest. Every entry that survives is within its lifetime and unchanged;
  an entry disappears only if it is stale, or if the fresh entries still fill the cache, and then
  it is no newer than any entry that survives; in that case a tenth of the limit is removed.
\<close>

theorem evict_keeps_newest:
  assumes "distinct (map fst (gp_cache g))" and "\<not> gp_cache_poisoned g"
  shows "(hm_get (gp_cache (evict_old_messages now g)) k = Some m \<longrightarrow>
            hm_get (gp_cache g) k = Some m \<and> duration_since now (cm_cached_at m) < gp_cache_ttl g)
     \<and> (hm_get (gp_cache g) k = Some m \<and> hm_get (gp_cache (evict_old_messages now g)) k = None
          \<and> duration_since now (cm_cached_at m) < gp_cache_ttl g \<longrightarrow>
            gp_max_cache_size g \<le> hm_size (fresh_part now g)
          \<and> (hm_get (gp_cache (evict_old_messages now g)) k' = Some m' \<longrightarrow> cm_cached_at m \<le> cm_cached_at m'))
     \<and> hm_size (gp_cache (evict_old_messages now g)) =
         hm_size (fresh_part now g)
         - (if gp_max_cache_size g \<le> hm_size (fresh_part now g) then gp_max_cache_size g div 10 else 0)"
proof -
  let ?f = "fresh_part now g"
  let ?gone = "set (map fst (evicted_fresh g ?f))"
  note wf = fresh_part_wf [OF assms(1), of now]
  have fresh: "hm_get ?f k = Some m \<longleftrightarrow>
      hm_get (gp_cache g) k = Some m \<and> duration_since now (cm_cached_at m) < gp_cache_ttl g" for k m
    by (cases "hm_get (gp_cache g) k")
       (auto simp: fresh_part_def hm_get_retain [OF assms(1)] simp del: map_of_eq_Some_iff split: if_splits)
  have full: "gp_max_cache_size g \<le> hm_size ?f" if "k \<in> ?gone"
    using that by (auto simp: evicted_fresh_def split: if_splits)
  have gone: "k \<in> ?gone" if "hm_get ?f k = Some m" "hm_get (gp_cache (evict_old_messages now g)) k = None"
    using that evict_get [OF assms, of now k] by (auto split: if_splits)
  have kept: "k' \<notin> ?gone \<and> hm_get ?f k' = Some m'"
    if "hm_get (gp_cache (evict_old_messages now g)) k' = Some m'" for k' m'
    using that evict_get [OF assms, of now k'] by (auto split: if_splits)
  show ?thesis
    using fresh full gone kept evicted_fresh_oldest [OF wf, of k g m k' m']
    by (auto simp: evict_size [OF assms] length_evicted_fresh simp del: set_map)
qed

text \<open>A protocol with ten messages in a cache of ten: one has to go.\<close>

definition full_cache :: "(string, nat) gossip_protocol" where
  "full_cache = (gossip_with_config 10 100)
     \<lparr>gp_cache := map (\<lambda>i. (i, \<lparr>cm_id = i, cm_data = [], cm_cached_at = i, cm_seen_count = 1\<rparr>)) [0..<10]\<rparr>"

theorem evict_keeps_newest_witness:
  "hm_size (gp_cache (evict_old_messages 20 full_cache)) = 9"
proof -
  have "distinct (map fst (gp_cache full_cache))" and "\<not> gp_cache_poisoned full_cache"
    by (simp_all add: full_cache_def o_def)
  moreover have "fresh_part 20 full_cache = gp_cache full_cache"
    by (simp add: fresh_part_def full_cache_def duration_since_def upt_rec)
  ultimately show ?thesis
    using evict_keeps_newest [of full_cache 20] by (simp add: full_cache_def)
qed

text \<open>The cache after a new message was put in, entry by entry.\<close>

lemma broadcast_cache_entries:
  assumes "hm_wf cache" and "cache' = hm_put k e (if full then remove_oldest cache else cache)"
  shows "\<exists>gone. (\<forall>i. hm_get cache' i = (if i = k then Some e else if i \<in> gone then None else hm_get cache i))
    \<and> (if \<not> full \<or> cache = [] then gone = {}
       else \<exists>j d. gone = {j} \<and> hm_get cache j = Some d
              \<and> (\<forall>i d'. hm_get cache i = Some d' \<longrightarrow> cm_cached_at d \<le> cm_cached_at d'))"
proof (cases "full \<and> cache \<noteq> []")
  case True
  then have "cache \<noteq> []" by simp
  from remove_oldest_gets [OF assms(1) this] obtain j d where "hm_get cache j = Some d"
    and "\<And>i d'. hm_get cache i = Some d' \<Longrightarrow> cm_cached_at d \<le> cm_cached_at d'"
    and "\<And>i. hm_get (remove_oldest cache) i = (if i = j then None else hm_get cache i)" by blast
  with True show ?thesis
    by (intro exI [of _ "{j}"]) (auto simp: assms(2) hm_get_put simp del: map_of_eq_Some_iff)
next
  case False
  then show ?thesis
    by (intro exI [of _ "{}"]) (auto simp: assms(2) hm_get_put remove_oldest_def)
qed



end
