(* ===== verification/Reputation.thy ===== *)
theory Reputation
  imports Prelude
begin

text \<open>
  The contract shared by the two reputation systems of the crate, \<open>PeerInfo\<close> in \<open>src/peer.rs\<close>
  and \<open>PeerReputation\<close> in \<open>src/security.rs\<close>: a score between 0 and 100 that starts at 50, good
  behaviour that adds to it up to 100, bad behaviour that subtracts from it down to 0. \<open>base\<close> is
  the score an update starts from: the stored one, or the stored one after decay.
\<close>

datatype behaviour_event = Good u8 | Bad u8

locale reputation =
  fixes score :: "'s \<Rightarrow> u8" and base :: "'s \<Rightarrow> u8"
    and good :: "u8 \<Rightarrow> 's \<Rightarrow> 's" and bad :: "u8 \<Rightarrow> 's \<Rightarrow> 's"
  assumes base_le: "unat (score s) \<le> 100 \<Longrightarrow> unat (base s) \<le> 100"
    and good_score: "unat (score (good a s)) = min 100 (unat (base s) + unat a)"
    and bad_score: "unat (score (bad a s)) = unat (base s) - unat a"
begin

fun behave :: "behaviour_event \<Rightarrow> 's \<Rightarrow> 's" where
  "behave (Good a) s = good a s"
| "behave (Bad a) s = bad a s"

lemma good_le: "unat (score (good a s)) \<le> 100"
  by (simp add: good_score)

lemma bad_le:
  assumes "unat (score s) \<le> 100"
  shows "unat (score (bad a s)) \<le> 100"
  using base_le [OF assms] by (simp add: bad_score)

lemma behave_le: "unat (score s) \<le> 100 \<Longrightarrow> unat (score (behave e s)) \<le> 100"
  by (cases e) (simp_all add: good_le bad_le)

lemma fold_behave_le: "unat (score s) \<le> 100 \<Longrightarrow> unat (score (fold behave es s)) \<le> 100"
  by (induction es arbitrary: s) (simp_all add: behave_le)

lemma good_raises: "unat (score s) \<le> 100 \<Longrightarrow> unat (base s) \<le> unat (score (good a s))"
  using base_le [of s] by (simp add: good_score)

lemma bad_lowers: "unat (score (bad a s)) \<le> unat (base s)"
  by (simp add: bad_score)

lemma bad_word: "score (bad a s) < t \<longleftrightarrow> unat (base s) - unat a < unat t"
  by (simp add: word_less_nat_alt bad_score)

end

lemma unat_capped_add: "unat (min (sat_add (b :: u8) a) 100) = min 100 (unat b + unat a)"
  by (simp add: machine_simps)

end
