(* ===== verification/Peers.thy ===== *)
theory Peers
  imports Reputation
begin

text \<open>
  The peer table (\<open>src/peer.rs\<close>): \<open>PeerInfo\<close> with its counters and reputation, and the
  operations of \<open>PeerManager\<close> on the shared \<open>DashMap\<close>. \<open>PeerId\<close> and \<open>Multiaddr\<close> are type
  variables. The sequential operations come first; the last section takes \<open>add_peer\<close> apart into
  its three accesses to the map and interleaves any number of threads.
\<close>

section \<open>One peer\<close>

datatype peer_status =
    PS_Connecting
  | PS_Connected
  | PS_Disconnected
  | PS_Banned

record ('p, 'a) peer_info =
  pi_peer_id :: 'p
  pi_addresses :: "'a list"
  pi_status :: peer_status
  pi_last_seen :: instant
  pi_messages_sent :: u64
  pi_messages_received :: u64
  pi_reputation :: u8
  pi_is_mining_pool :: bool
  pi_protocol_version :: "string option"
  pi_agent_version :: "string option"

definition peer_info_new :: "instant \<Rightarrow> 'p \<Rightarrow> ('p, 'a) peer_info" where
  "peer_info_new now peer_id =
     \<lparr>pi_peer_id = peer_id, pi_addresses = [], pi_status = PS_Connecting, pi_last_seen = now,
      pi_messages_sent = 0, pi_messages_received = 0, pi_reputation = 50,
      pi_is_mining_pool = False, pi_protocol_version = None, pi_agent_version = None\<rparr>"

definition update_last_seen :: "instant \<Rightarrow> ('p, 'a) peer_info \<Rightarrow> ('p, 'a) peer_info" where
  "update_last_seen now i = i\<lparr>pi_last_seen := now\<rparr>"

definition increment_sent :: "('p, 'a) peer_info \<Rightarrow> ('p, 'a) peer_info" where
  "increment_sent i = i\<lparr>pi_messages_sent := sat_add (pi_messages_sent i) 1\<rparr>"

definition increment_received :: "('p, 'a) peer_info \<Rightarrow> ('p, 'a) peer_info" where
  "increment_received i = i\<lparr>pi_messages_received := sat_add (pi_messages_received i) 1\<rparr>"

definition info_increase_reputation :: "u8 \<Rightarrow> ('p, 'a) peer_info \<Rightarrow> ('p, 'a) peer_info" where
  "info_increase_reputation amount i = i\<lparr>pi_reputation := min (sat_add (pi_reputation i) amount) 100\<rparr>"

definition info_decrease_reputation :: "u8 \<Rightarrow> ('p, 'a) peer_info \<Rightarrow> ('p, 'a) peer_info" where
  "info_decrease_reputation amount i = i\<lparr>pi_reputation := sat_sub (pi_reputation i) amount\<rparr>"

definition is_healthy :: "('p, 'a) peer_info \<Rightarrow> bool" where
  "is_healthy i \<longleftrightarrow> pi_status i = PS_Connected \<and> 30 \<le> pi_reputation i"

definition should_ban :: "('p, 'a) peer_info \<Rightarrow> bool" where
  "should_ban i \<longleftrightarrow> pi_reputation i < 10"

interpretation peer_rep: reputation pi_reputation pi_reputation info_increase_reputation info_decrease_reputation
  by unfold_locales
     (simp_all add: info_increase_reputation_def info_decrease_reputation_def unat_capped_add unat_sat_sub)

section \<open>The manager\<close>

record ('p, 'a) peer_manager =
  pm_peers :: "('p, ('p, 'a) peer_info) hmap"
  pm_max_peers :: usize
  pm_min_peers :: usize
  pm_timeout :: duration

definition peer_manager_new :: "usize \<Rightarrow> usize \<Rightarrow> duration \<Rightarrow> ('p, 'a) peer_manager" where
  "peer_manager_new max_peers min_peers timeout =
     \<lparr>pm_peers = [], pm_max_peers = max_peers, pm_min_peers = min_peers, pm_timeout = timeout\<rparr>"

definition add_peer :: "instant \<Rightarrow> 'p \<Rightarrow> ('p, 'a) peer_manager \<Rightarrow> bool \<times> ('p, 'a) peer_manager" where
  "add_peer now peer_id m =
     (if pm_max_peers m \<le> hm_size (pm_peers m) then (False, m)
      else if hm_has (pm_peers m) peer_id then (False, m)
      else (True, m\<lparr>pm_peers := hm_put peer_id (peer_info_new now peer_id) (pm_peers m)\<rparr>))"

definition remove_peer ::
  "'p \<Rightarrow> ('p, 'a) peer_manager \<Rightarrow> ('p, 'a) peer_info option \<times> ('p, 'a) peer_manager" where
  "remove_peer peer_id m = (hm_get (pm_peers m) peer_id, m\<lparr>pm_peers := hm_del peer_id (pm_peers m)\<rparr>)"

definition get_peer :: "'p \<Rightarrow> ('p, 'a) peer_manager \<Rightarrow> ('p, 'a) peer_info option" where
  "get_peer peer_id m = hm_get (pm_peers m) peer_id"

text \<open>\<open>if let Some(mut peer) = self.peers.get_mut(peer_id)\<close>\<close>

definition modify_peer ::
  "'p \<Rightarrow> (('p, 'a) peer_info \<Rightarrow> ('p, 'a) peer_info) \<Rightarrow> ('p, 'a) peer_manager \<Rightarrow> ('p, 'a) peer_manager" where
  "modify_peer peer_id f m = m\<lparr>pm_peers := hm_modify peer_id f (pm_peers m)\<rparr>"

definition update_peer_status ::
  "instant \<Rightarrow> 'p \<Rightarrow> peer_status \<Rightarrow> ('p, 'a) peer_manager \<Rightarrow> ('p, 'a) peer_manager" where
  "update_peer_status now peer_id status =
     modify_peer peer_id (\<lambda>i. update_last_seen now (i\<lparr>pi_status := status\<rparr>))"

definition update_peer_addresses ::
  "instant \<Rightarrow> 'p \<Rightarrow> 'a list \<Rightarrow> ('p, 'a) peer_manager \<Rightarrow> ('p, 'a) peer_manager" where
  "update_peer_addresses now peer_id addresses =
     modify_peer peer_id (\<lambda>i. update_last_seen now (i\<lparr>pi_addresses := addresses\<rparr>))"

definition update_peer_protocol ::
  "instant \<Rightarrow> 'p \<Rightarrow> string \<Rightarrow> string \<Rightarrow> ('p, 'a) peer_manager \<Rightarrow> ('p, 'a) peer_manager" where
  "update_peer_protocol now peer_id protocol_version agent_version =
     modify_peer peer_id (\<lambda>i. update_last_seen now
       (i\<lparr>pi_protocol_version := Some protocol_version, pi_agent_version := Some agent_version\<rparr>))"

definition mark_as_mining_pool :: "'p \<Rightarrow> ('p, 'a) peer_manager \<Rightarrow> ('p, 'a) peer_manager" where
  "mark_as_mining_pool peer_id = modify_peer peer_id (\<lambda>i. i\<lparr>pi_is_mining_pool := True\<rparr>)"

definition record_message_sent :: "instant \<Rightarrow> 'p \<Rightarrow> ('p, 'a) peer_manager \<Rightarrow> ('p, 'a) peer_manager" where
  "record_message_sent now peer_id = modify_peer peer_id (\<lambda>i. update_last_seen now (increment_sent i))"

definition record_message_received :: "instant \<Rightarrow> 'p \<Rightarrow> ('p, 'a) peer_manager \<Rightarrow> ('p, 'a) peer_manager" where
  "record_message_received now peer_id = modify_peer peer_id (\<lambda>i. update_last_seen now (increment_received i))"

definition increase_reputation :: "'p \<Rightarrow> u8 \<Rightarrow> ('p, 'a) peer_manager \<Rightarrow> ('p, 'a) peer_manager" where
  "increase_reputation peer_id amount = modify_peer peer_id (info_increase_reputation amount)"

definition decrease_reputation :: "'p \<Rightarrow> u8 \<Rightarrow> ('p, 'a) peer_manager \<Rightarrow> ('p, 'a) peer_manager" where
  "decrease_reputation peer_id amount =
     modify_peer peer_id (\<lambda>i. let i' = info_decrease_reputation amount i
                             in if should_ban i' then i'\<lparr>pi_status := PS_Banned\<rparr> else i')"

definition ban_peer :: "'p \<Rightarrow> ('p, 'a) peer_manager \<Rightarrow> ('p, 'a) peer_manager" where
  "ban_peer peer_id = modify_peer peer_id (\<lambda>i. i\<lparr>pi_status := PS_Banned, pi_reputation := 0\<rparr>)"

definition connected_peers :: "('p, 'a) peer_manager \<Rightarrow> 'p list" where
  "connected_peers m = [pi_peer_id i. (_, i) \<leftarrow> pm_peers m, pi_status i = PS_Connected]"

definition mining_pool_peers :: "('p, 'a) peer_manager \<Rightarrow> 'p list" where
  "mining_pool_peers m =
     [pi_peer_id i. (_, i) \<leftarrow> pm_peers m, pi_is_mining_pool i \<and> pi_status i = PS_Connected]"

definition connected_count :: "('p, 'a) peer_manager \<Rightarrow> usize" where
  "connected_count m = length (filter (\<lambda>(_, i). pi_status i = PS_Connected) (pm_peers m))"

definition needs_more_peers :: "('p, 'a) peer_manager \<Rightarrow> bool" where
  "needs_more_peers m \<longleftrightarrow> connected_count m < pm_min_peers m"

definition has_too_many_peers :: "('p, 'a) peer_manager \<Rightarrow> bool" where
  "has_too_many_peers m \<longleftrightarrow> pm_max_peers m < connected_count m"

definition timed_out :: "instant \<Rightarrow> duration \<Rightarrow> ('p, 'a) peer_info \<Rightarrow> bool" where
  "timed_out now timeout i \<longleftrightarrow>
     pi_status i = PS_Connected \<and> timeout < duration_since now (pi_last_seen i)"

definition remove_timed_out_peers ::
  "instant \<Rightarrow> ('p, 'a) peer_manager \<Rightarrow> 'p list \<times> ('p, 'a) peer_manager" where
  "remove_timed_out_peers now m =
     ([k. (k, i) \<leftarrow> pm_peers m, timed_out now (pm_timeout m) i],
      m\<lparr>pm_peers := hm_retain (\<lambda>_ i. \<not> timed_out now (pm_timeout m) i) (pm_peers m)\<rparr>)"

record peer_stats =
  ps_total :: usize
  ps_connected :: usize
  ps_mining_pools :: usize
  ps_banned :: usize

definition peer_get_stats :: "('p, 'a) peer_manager \<Rightarrow> peer_stats" where
  "peer_get_stats m =
     \<lparr>ps_total = hm_size (pm_peers m), ps_connected = connected_count m,
      ps_mining_pools = length (mining_pool_peers m),
      ps_banned = length (filter (\<lambda>(_, i). pi_status i = PS_Banned) (pm_peers m))\<rparr>"

section \<open>Sequences of calls\<close>

datatype ('p, 'a) peer_call =
    PC_Add instant 'p
  | PC_Remove 'p
  | PC_Status instant 'p peer_status
  | PC_Addresses instant 'p "'a list"
  | PC_Protocol instant 'p string string
  | PC_MiningPool 'p
  | PC_Sent instant 'p
  | PC_Received instant 'p
  | PC_Increase 'p u8
  | PC_Decrease 'p u8
  | PC_Ban 'p
  | PC_RemoveTimedOut instant

fun peer_step :: "('p, 'a) peer_call \<Rightarrow> ('p, 'a) peer_manager \<Rightarrow> ('p, 'a) peer_manager" where
  "peer_step (PC_Add now p) m = snd (add_peer now p m)"
| "peer_step (PC_Remove p) m = snd (remove_peer p m)"
| "peer_step (PC_Status now p s) m = update_peer_status now p s m"
| "peer_step (PC_Addresses now p as) m = update_peer_addresses now p as m"
| "peer_step (PC_Protocol now p v a) m = update_peer_protocol now p v a m"
| "peer_step (PC_MiningPool p) m = mark_as_mining_pool p m"
| "peer_step (PC_Sent now p) m = record_message_sent now p m"
| "peer_step (PC_Received now p) m = record_message_received now p m"
| "peer_step (PC_Increase p a) m = increase_reputation p a m"
| "peer_step (PC_Decrease p a) m = decrease_reputation p a m"
| "peer_step (PC_Ban p) m = ban_peer p m"
| "peer_step (PC_RemoveTimedOut now) m = snd (remove_timed_out_peers now m)"

lemmas peer_update_defs =
  update_peer_status_def update_peer_addresses_def update_peer_protocol_def mark_as_mining_pool_def
  record_message_sent_def record_message_received_def increase_reputation_def decrease_reputation_def
  ban_peer_def update_last_seen_def increment_sent_def increment_received_def

definition info_ok :: "'p \<Rightarrow> ('p, 'a) peer_info \<Rightarrow> bool" where
  "info_ok p i \<longleftrightarrow> pi_peer_id i = p \<and> unat (pi_reputation i) \<le> 100"

definition peers_ok :: "('p, 'a) peer_manager \<Rightarrow> bool" where
  "peers_ok m \<longleftrightarrow> hm_wf (pm_peers m) \<and> hm_size (pm_peers m) \<le> pm_max_peers m
     \<and> (\<forall>p i. hm_get (pm_peers m) p = Some i \<longrightarrow> info_ok p i)"

lemma modify_peer_ok:
  assumes "peers_ok m" and "\<And>i. info_ok p i \<Longrightarrow> info_ok p (f i)"
  shows "peers_ok (modify_peer p f m)"
  using assms by (auto simp: peers_ok_def modify_peer_def hm_simps split: if_splits simp del: map_of_eq_Some_iff)

lemma peer_step_ok: "peers_ok m \<Longrightarrow> peers_ok (peer_step c m)"
proof (induction c)
  case (PC_Add now p)
  then show ?case
    by (auto simp: add_peer_def peers_ok_def hm_simps info_ok_def peer_info_new_def
        split: if_splits simp del: map_of_eq_Some_iff)
next
  case (PC_Remove p)
  then show ?case
    by (auto simp: remove_peer_def peers_ok_def hm_simps intro: hm.del_within
        split: if_splits simp del: map_of_eq_Some_iff)
next
  case (PC_RemoveTimedOut now)
  then show ?case
    by (auto simp: remove_timed_out_peers_def peers_ok_def hm_simps intro: le_trans [OF length_filter_le]
        split: option.splits if_splits simp del: map_of_eq_Some_iff)
next
  case (PC_Decrease p a)
  then show ?case
    by (auto simp: decrease_reputation_def info_ok_def Let_def info_decrease_reputation_def unat_sat_sub
        intro!: modify_peer_ok)
qed (auto simp: peer_update_defs info_ok_def peer_rep.good_le intro!: modify_peer_ok,
     simp add: info_increase_reputation_def)

lemma peer_step_limits:
  "pm_max_peers (peer_step c m) = pm_max_peers m" "pm_timeout (peer_step c m) = pm_timeout m"
  by (cases c; simp add: add_peer_def remove_peer_def peer_update_defs modify_peer_def
      remove_timed_out_peers_def)+

interpretation peer_table: invariant_machine peer_step "\<lambda>m. peers_ok m \<and> pm_max_peers m = cap"
  by unfold_locales (simp add: peer_step_ok peer_step_limits)

section \<open>Banned peers\<close>

text \<open>The calls that can end a ban: a new status for the peer, or its removal.\<close>

fun lifts_ban :: "'p \<Rightarrow> ('p, 'a) peer_call \<Rightarrow> bool" where
  "lifts_ban p (PC_Remove q) \<longleftrightarrow> q = p"
| "lifts_ban p (PC_Status now q s) \<longleftrightarrow> q = p \<and> s \<noteq> PS_Banned"
| "lifts_ban p _ \<longleftrightarrow> False"

definition banned :: "'p \<Rightarrow> ('p, 'a) peer_manager \<Rightarrow> bool" where
  "banned p m \<longleftrightarrow> (\<exists>i. hm_get (pm_peers m) p = Some i \<and> pi_status i = PS_Banned)"

lemma modify_peer_banned:
  assumes "banned p m" and "\<And>i. pi_status i = PS_Banned \<Longrightarrow> pi_status (f i) = PS_Banned"
  shows "banned p (modify_peer q f m)"
  using assms by (auto simp: banned_def modify_peer_def hm_get_modify)

lemma peer_step_banned:
  assumes "hm_wf (pm_peers m)" and "banned p m" and "\<not> lifts_ban p c"
  shows "banned p (peer_step c m)"
proof (cases c)
  case (PC_Add now q)
  then show ?thesis
    using assms(2) by (auto simp: add_peer_def banned_def hm_get_put)
next
  case (PC_Remove q)
  then show ?thesis
    using assms(2,3) by (auto simp: remove_peer_def banned_def hm_get_del)
next
  case (PC_Status now q st)
  then show ?thesis
    using assms(2,3)
    by (cases "q = p") (auto simp: banned_def peer_update_defs modify_peer_def hm_get_modify)
next
  case (PC_RemoveTimedOut now)
  then show ?thesis
    using assms(2)
    by (auto simp: remove_timed_out_peers_def banned_def hm_get_retain [OF assms(1)] timed_out_def)
next
  case (PC_Decrease q a)
  then show ?thesis
    using assms(2) by (auto simp: decrease_reputation_def Let_def info_decrease_reputation_def
        intro!: modify_peer_banned)
next
  case (PC_Increase q a)
  then show ?thesis
    using assms(2) by (auto simp: increase_reputation_def info_increase_reputation_def intro!: modify_peer_banned)
qed (use assms(2) in \<open>auto simp: peer_update_defs intro!: modify_peer_banned\<close>)

lemma peer_run_banned:
  assumes "peers_ok m" and "banned p m" and "list_all (\<lambda>c. \<not> lifts_ban p c) cs"
  shows "banned p (fold peer_step cs m)"
  using assms
proof (induction cs arbitrary: m)
  case Nil
  then show ?case by simp
next
  case (Cons c cs)
  have "banned p (peer_step c m)"
    using Cons.prems by (intro peer_step_banned) (auto simp: peers_ok_def)
  with Cons show ?case by (simp add: peer_step_ok)
qed

lemma connected_peers_iff:
  assumes "peers_ok m"
  shows "p \<in> set (connected_peers m) \<longleftrightarrow>
    (\<exists>i. hm_get (pm_peers m) p = Some i \<and> pi_status i = PS_Connected)"
proof -
  have wf: "hm_wf (pm_peers m)" using assms by (simp add: peers_ok_def)
  have id: "pi_peer_id i = q" if "(q, i) \<in> set (pm_peers m)" for q i
    using that assms by (simp add: peers_ok_def info_ok_def)
  have "p \<in> set (connected_peers m) \<longleftrightarrow>
      (\<exists>q i. (q, i) \<in> set (pm_peers m) \<and> pi_status i = PS_Connected \<and> pi_peer_id i = p)"
    by (auto simp: connected_peers_def split: if_splits)
  also have "\<dots> \<longleftrightarrow> (\<exists>i. (p, i) \<in> set (pm_peers m) \<and> pi_status i = PS_Connected)"
    using id by blast
  finally show ?thesis using wf by simp
qed

lemma connected_peers_length:
  fixes m :: "('p, 'a) peer_manager"
  shows "length (connected_peers m) = connected_count m"
proof -
  have "length [pi_peer_id i. (_, i) \<leftarrow> ps, pi_status i = PS_Connected]
      = length (filter (\<lambda>(_, i). pi_status i = PS_Connected) ps)" for ps :: "('p, ('p, 'a) peer_info) hmap"
    by (induction ps) auto
  then show ?thesis by (simp add: connected_peers_def connected_count_def)
qed

lemma connected_count_le: "connected_count m \<le> hm_size (pm_peers m)"
  by (simp add: connected_count_def)

section \<open>Adding peers from several threads\<close>

text \<open>
  \<open>add_peer\<close> takes \<open>&self\<close> and reaches the map three times: \<open>len\<close>, \<open>contains_key\<close>, \<open>insert\<close>.
  Each is atomic, together they are not. A thread is the peer it adds and its place in the code.
\<close>

datatype add_pc =
    AP_Start
  | AP_Admitted
  | AP_Inserting
  | AP_Done bool

record ('p, 'a) add_state =
  as_manager :: "('p, 'a) peer_manager"
  as_threads :: "('p \<times> add_pc) list"

inductive add_step :: "('p, 'a) add_state \<Rightarrow> ('p, 'a) add_state \<Rightarrow> bool" where
  len_full:
    "n < length (as_threads s) \<Longrightarrow> as_threads s ! n = (p, AP_Start)
     \<Longrightarrow> pm_max_peers (as_manager s) \<le> hm_size (pm_peers (as_manager s))
     \<Longrightarrow> add_step s (s\<lparr>as_threads := (as_threads s)[n := (p, AP_Done False)]\<rparr>)"
| len_room:
    "n < length (as_threads s) \<Longrightarrow> as_threads s ! n = (p, AP_Start)
     \<Longrightarrow> hm_size (pm_peers (as_manager s)) < pm_max_peers (as_manager s)
     \<Longrightarrow> add_step s (s\<lparr>as_threads := (as_threads s)[n := (p, AP_Admitted)]\<rparr>)"
| known:
    "n < length (as_threads s) \<Longrightarrow> as_threads s ! n = (p, AP_Admitted)
     \<Longrightarrow> hm_has (pm_peers (as_manager s)) p
     \<Longrightarrow> add_step s (s\<lparr>as_threads := (as_threads s)[n := (p, AP_Done False)]\<rparr>)"
| unknown:
    "n < length (as_threads s) \<Longrightarrow> as_threads s ! n = (p, AP_Admitted)
     \<Longrightarrow> \<not> hm_has (pm_peers (as_manager s)) p
     \<Longrightarrow> add_step s (s\<lparr>as_threads := (as_threads s)[n := (p, AP_Inserting)]\<rparr>)"
| insert_peer:
    "n < length (as_threads s) \<Longrightarrow> as_threads s ! n = (p, AP_Inserting)
     \<Longrightarrow> add_step s (s\<lparr>as_threads := (as_threads s)[n := (p, AP_Done True)],
           as_manager := (as_manager s)
             \<lparr>pm_peers := hm_put p (peer_info_new now p) (pm_peers (as_manager s))\<rparr>\<rparr>)"

inductive_cases add_step_cases: "add_step s s'"

definition admitted :: "add_pc \<Rightarrow> bool" where
  "admitted pc \<longleftrightarrow> pc = AP_Admitted \<or> pc = AP_Inserting"

definition pending :: "('p \<times> add_pc) list \<Rightarrow> nat" where
  "pending ts = length (filter (\<lambda>(_, pc). admitted pc) ts)"

lemma pending_update:
  assumes "n < length ts"
  shows "pending (ts[n := (p, pc)]) + (if admitted (snd (ts ! n)) then 1 else 0)
       = pending ts + (if admitted pc then 1 else 0)"
proof -
  have split: "ts = take n ts @ (ts ! n) # drop (Suc n) ts"
    using assms by (rule id_take_nth_drop)
  have "ts[n := (p, pc)] = take n ts @ (p, pc) # drop (Suc n) ts"
    using assms by (rule upd_conv_take_nth_drop)
  then have "pending (ts[n := (p, pc)])
      = pending (take n ts) + (if admitted pc then 1 else 0) + pending (drop (Suc n) ts)"
    by (simp add: pending_def)
  moreover have "pending ts
      = pending (take n ts) + (if admitted (snd (ts ! n)) then 1 else 0) + pending (drop (Suc n) ts)"
    by (subst split) (simp add: pending_def split_beta)
  ultimately show ?thesis by simp
qed

lemma pending_le: "pending ts \<le> length ts"
  by (simp add: pending_def)

definition add_inv :: "('p, 'a) add_state \<Rightarrow> bool" where
  "add_inv s \<longleftrightarrow> hm_wf (pm_peers (as_manager s))
     \<and> hm_size (pm_peers (as_manager s)) + pending (as_threads s)
         \<le> pm_max_peers (as_manager s) + (length (as_threads s) - 1)"

lemma add_step_frame:
  assumes "add_step s s'"
  shows "length (as_threads s') = length (as_threads s)"
    and "pm_max_peers (as_manager s') = pm_max_peers (as_manager s)"
  using assms by (cases; simp)+

lemma add_step_inv:
  assumes "add_step s s'" and "add_inv s"
  shows "add_inv s'"
  using assms(1)
proof cases
  case (len_room n p)
  have "pending (as_threads s') \<le> length (as_threads s)"
    using pending_le [of "as_threads s'"] len_room(1) by simp
  then show ?thesis
    using assms(2) len_room by (auto simp: add_inv_def)
next
  case (insert_peer n p now)
  with assms(2) pending_update [OF insert_peer(2), of p "AP_Done True"] show ?thesis
    by (auto simp: add_inv_def admitted_def hm_simps)
next
  case (len_full n p)
  with assms(2) pending_update [OF len_full(2), of p "AP_Done False"] show ?thesis
    by (auto simp: add_inv_def admitted_def)
next
  case (known n p)
  with assms(2) pending_update [OF known(2), of p "AP_Done False"] show ?thesis
    by (auto simp: add_inv_def admitted_def)
next
  case (unknown n p)
  with assms(2) pending_update [OF unknown(2), of p "AP_Inserting"] show ?thesis
    by (auto simp: add_inv_def admitted_def)
qed

lemma add_reachable:
  assumes "add_step\<^sup>*\<^sup>* s s'" and "add_inv s"
  shows "add_inv s' \<and> length (as_threads s') = length (as_threads s)
    \<and> pm_max_peers (as_manager s') = pm_max_peers (as_manager s)"
  using assms by (induction rule: rtranclp_induct) (auto simp: add_step_inv add_step_frame)

text \<open>One thread alone is the sequential \<open>add_peer\<close>.\<close>

definition alone :: "'p \<Rightarrow> ('p, 'a) peer_manager \<Rightarrow> ('p, 'a) add_state \<Rightarrow> bool" where
  "alone p m s \<longleftrightarrow> (\<exists>pc. as_threads s = [(p, pc)]
     \<and> (case pc of
          AP_Start \<Rightarrow> as_manager s = m
        | AP_Admitted \<Rightarrow> as_manager s = m \<and> hm_size (pm_peers m) < pm_max_peers m
        | AP_Inserting \<Rightarrow> as_manager s = m \<and> hm_size (pm_peers m) < pm_max_peers m
                            \<and> hm_get (pm_peers m) p = None
        | AP_Done r \<Rightarrow> \<exists>now. add_peer now p m = (r, as_manager s)))"

lemma alone_step:
  assumes "add_step s s'" and "alone p m s"
  shows "alone p m s'"
  using assms
  by (cases rule: add_step_cases) (auto simp: alone_def add_peer_def)

lemma alone_reachable:
  "add_step\<^sup>*\<^sup>* s s' \<Longrightarrow> alone p m s \<Longrightarrow> alone p m s'"
  by (induction rule: rtranclp_induct) (auto intro: alone_step)

section \<open>Properties\<close>

text \<open>
  C13: the peer table stays sound. After any sequence of sequential calls on a new manager: at most
  \<open>max_peers\<close> entries, none twice, each under its own identifier with a reputation of at most
  100; the connected list is duplicate-free up to its count and names exactly the connected peers; and
  \<open>has_too_many_peers\<close> is never true.
\<close>

theorem peer_table_sound:
  "let m = fold peer_step calls (peer_manager_new max_peers min_peers timeout)
   in hm_size (pm_peers m) \<le> max_peers \<and> distinct (map fst (pm_peers m))
     \<and> list_all (\<lambda>(p, i). pi_peer_id i = p \<and> unat (pi_reputation i) \<le> 100) (pm_peers m)
     \<and> set (connected_peers m) = {p. \<exists>i. get_peer p m = Some i \<and> pi_status i = PS_Connected}
     \<and> length (connected_peers m) = ps_connected (peer_get_stats m)
     \<and> \<not> has_too_many_peers m"
proof -
  define m where "m = fold peer_step calls (peer_manager_new max_peers min_peers timeout)"
  have "peers_ok (peer_manager_new max_peers min_peers timeout :: ('a, 'b) peer_manager)
      \<and> pm_max_peers (peer_manager_new max_peers min_peers timeout :: ('a, 'b) peer_manager) = max_peers"
    by (simp add: peers_ok_def peer_manager_new_def)
  from peer_table.run_inv [OF this, of calls] have ok: "peers_ok m" and cap: "pm_max_peers m = max_peers"
    by (simp_all add: m_def)
  have "set (connected_peers m) = {p. \<exists>i. get_peer p m = Some i \<and> pi_status i = PS_Connected}"
    using connected_peers_iff [OF ok] by (auto simp: get_peer_def)
  moreover have "list_all (\<lambda>(p, i). pi_peer_id i = p \<and> unat (pi_reputation i) \<le> 100) (pm_peers m)"
    using ok by (auto simp: peers_ok_def info_ok_def list_all_iff)
  moreover have "\<not> has_too_many_peers m"
    using ok connected_count_le [of m] by (simp add: has_too_many_peers_def peers_ok_def)
  ultimately show ?thesis
    using ok cap by (simp add: peers_ok_def connected_peers_length peer_get_stats_def flip: m_def)
qed

text \<open>
  C28: a ban lasts. A peer whose reputation falls below 10 is banned at once, and stays banned and
  out of the connected list through any later calls, increases of its reputation included, that
  neither set its status to something else nor remove it.
\<close>

theorem ban_is_sticky:
  assumes "peers_ok m" and "get_peer p m = Some i" and "unat (pi_reputation i) - unat amount < 10"
    and "list_all (\<lambda>c. \<not> lifts_ban p c) calls"
  shows "banned p (fold peer_step calls (decrease_reputation p amount m))
       \<and> p \<notin> set (connected_peers (fold peer_step calls (decrease_reputation p amount m)))"
proof -
  let ?m = "decrease_reputation p amount m" and ?e = "fold peer_step calls (decrease_reputation p amount m)"
  have low: "should_ban (info_decrease_reputation amount i)"
    using peer_rep.bad_word [of amount i 10] assms(3) by (simp add: should_ban_def)
  have ok: "peers_ok ?m"
    using peer_step_ok [OF assms(1), of "PC_Decrease p amount"] by simp
  have "banned p ?m"
    using assms(2) low
    by (auto simp: get_peer_def decrease_reputation_def modify_peer_def banned_def hm_get_modify Let_def)
  from peer_run_banned [OF ok this assms(4)] have b: "banned p ?e" .
  have "peers_ok ?e"
    using peer_table.run_inv [of ?m _ calls] ok by blast
  from connected_peers_iff [OF this, of p] b show ?thesis
    by (auto simp: banned_def)
qed

text \<open>One connected peer, for the concrete instances.\<close>

definition one_peer :: "(nat, string) peer_manager" where
  "one_peer = update_peer_status 5 7 PS_Connected (snd (add_peer 0 7 (peer_manager_new 1 1 100)))"

lemma one_peer_eq:
  "one_peer = (peer_manager_new 1 1 100)
     \<lparr>pm_peers := [(7, (peer_info_new 5 7)\<lparr>pi_status := PS_Connected\<rparr>)]\<rparr>"
  by (simp add: one_peer_def add_peer_def peer_manager_new_def peer_update_defs modify_peer_def
      peer_info_new_def)

lemma one_peer_ok: "peers_ok one_peer"
  by (simp add: one_peer_eq peers_ok_def peer_manager_new_def info_ok_def peer_info_new_def)

theorem ban_is_sticky_witness:
  "banned 7 (fold peer_step [PC_Increase 7 100, PC_Add 9 8] (decrease_reputation 7 45 one_peer))"
proof -
  have "get_peer 7 one_peer = Some ((peer_info_new 5 7)\<lparr>pi_status := PS_Connected\<rparr>)"
    by (simp add: one_peer_eq get_peer_def)
  from ban_is_sticky [OF one_peer_ok this, of 45 "[PC_Increase 7 100, PC_Add 9 8]"] show ?thesis
    by (simp add: peer_info_new_def)
qed

text \<open>
  The timeout sweep removes exactly the connected peers that have been silent longer than the
  timeout, reports exactly those, leaves every other entry as it was, and finds nothing more when
  repeated at the same time.
\<close>

lemma timeout_sweep_exact:
  assumes "peers_ok m" and "remove_timed_out_peers now m = (gone, m')"
  shows "set gone = {p. \<exists>i. get_peer p m = Some i \<and> pi_status i = PS_Connected
                            \<and> pm_timeout m < now - pi_last_seen i}
       \<and> get_peer p m' = (if p \<in> set gone then None else get_peer p m)
       \<and> remove_timed_out_peers now m' = ([], m')"
proof -
  have wf: "hm_wf (pm_peers m)" using assms(1) by (simp add: peers_ok_def)
  have m': "m' = m\<lparr>pm_peers := hm_retain (\<lambda>_ i. \<not> timed_out now (pm_timeout m) i) (pm_peers m)\<rparr>"
    and gone: "set gone = {p. \<exists>i. get_peer p m = Some i \<and> timed_out now (pm_timeout m) i}"
    using assms(2) wf by (auto simp: remove_timed_out_peers_def get_peer_def split: if_splits) force
  have "get_peer p m' = (if p \<in> set gone then None else get_peer p m)"
    unfolding gone
    by (auto simp: m' get_peer_def hm_get_retain [OF wf] split: option.split simp del: map_of_eq_Some_iff)
  moreover have "remove_timed_out_peers now m' = ([], m')"
    by (auto simp: remove_timed_out_peers_def m' hm_retain_idem)
  ultimately show ?thesis
    using gone by (simp add: timed_out_def duration_since_def)
qed

lemma timeout_sweep_exact_witness:
  "fst (remove_timed_out_peers 200 one_peer) = [7]
   \<and> get_peer 7 (snd (remove_timed_out_peers 200 one_peer)) = None"
proof -
  let ?r = "remove_timed_out_peers 200 one_peer"
  have "fst ?r = [7]"
    by (simp add: remove_timed_out_peers_def one_peer_eq peer_manager_new_def timed_out_def
        duration_since_def peer_info_new_def)
  moreover from this have "?r = ([7], snd ?r)"
    by (metis prod.collapse)
  ultimately show ?thesis
    using timeout_sweep_exact [OF one_peer_ok, of 200 "[7]" "snd ?r" 7] by simp
qed

text \<open>
  Dead entries block the table. Once the table is full of peers none of which is connected
  (banned, disconnected or still connecting), no sweep at any time frees a place and every new
  peer is rejected, although the manager reports that it needs more peers.
\<close>

lemma dead_entries_block:
  assumes "hm_size (pm_peers m) = pm_max_peers m" and "connected_count m = 0" and "0 < pm_min_peers m"
  shows "remove_timed_out_peers now m = ([], m) \<and> add_peer now' p m = (False, m) \<and> needs_more_peers m"
proof -
  have dead: "\<not> timed_out now (pm_timeout m) i" if "(q, i) \<in> set (pm_peers m)" for q i
    using that assms(2) by (auto simp: connected_count_def timed_out_def filter_empty_conv)
  then have "hm_retain (\<lambda>_ i. \<not> timed_out now (pm_timeout m) i) (pm_peers m) = pm_peers m"
    by (intro filter_True) auto
  moreover have "[k. (k, i) \<leftarrow> pm_peers m, timed_out now (pm_timeout m) i] = []"
    using dead by auto
  ultimately show ?thesis
    using assms by (simp add: remove_timed_out_peers_def add_peer_def needs_more_peers_def)
qed

lemma dead_entries_block_witness:
  "add_peer 1000000 8 (ban_peer 7 one_peer) = (False, ban_peer 7 one_peer)
   \<and> needs_more_peers (ban_peer 7 one_peer)"
proof -
  have "ban_peer 7 one_peer = (peer_manager_new 1 1 100)
     \<lparr>pm_peers := [(7, (peer_info_new 5 7)\<lparr>pi_status := PS_Banned, pi_reputation := 0\<rparr>)]\<rparr>"
    by (simp add: ban_peer_def modify_peer_def one_peer_eq peer_manager_new_def)
  then show ?thesis
    using dead_entries_block [of "ban_peer 7 one_peer" 0 1000000 8]
    by (simp add: peer_manager_new_def connected_count_def)
qed

text \<open>
  C12: the limit under concurrency. If \<open>n\<close> threads call \<open>add_peer\<close> at the same time on a table
  within its limit, then in every interleaving the table exceeds the limit by at most \<open>n - 1\<close>. A
  single thread answers, and leaves the table, exactly as the sequential \<open>add_peer\<close>.
\<close>

theorem concurrent_add_bound:
  assumes "hm_wf (pm_peers m)" and "hm_size (pm_peers m) \<le> pm_max_peers m"
    and "add_step\<^sup>*\<^sup>* \<lparr>as_manager = m, as_threads = map (\<lambda>p. (p, AP_Start)) ps\<rparr> s"
  shows "hm_size (pm_peers (as_manager s)) \<le> pm_max_peers m + (length ps - 1)
     \<and> (ps = [p] \<and> as_threads s = [(p, AP_Done r)] \<longrightarrow> (\<exists>now. add_peer now p m = (r, as_manager s)))"
proof -
  let ?s = "\<lparr>as_manager = m, as_threads = map (\<lambda>p. (p, AP_Start)) ps\<rparr>"
  have "add_inv ?s"
    using assms(1,2) by (simp add: add_inv_def pending_def admitted_def split_beta)
  from add_reachable [OF assms(3) this]
  have "hm_size (pm_peers (as_manager s)) \<le> pm_max_peers m + (length ps - 1)"
    by (auto simp: add_inv_def)
  moreover have "\<exists>now. add_peer now p m = (r, as_manager s)"
    if "ps = [p]" "as_threads s = [(p, AP_Done r)]"
  proof -
    have "alone p m ?s" using that(1) by (simp add: alone_def)
    from alone_reachable [OF assms(3) this] that(2) show ?thesis by (simp add: alone_def)
  qed
  ultimately show ?thesis by blast
qed

text \<open>
  The bound is reached: with room for one peer, two threads both get past the length check and
  both insert.
\<close>

definition race :: "add_pc \<Rightarrow> add_pc \<Rightarrow> (nat, ((nat, string) peer_info)) hmap \<Rightarrow> (nat, string) add_state" where
  "race pc pc' ps = \<lparr>as_manager = (peer_manager_new 1 1 100)\<lparr>pm_peers := ps\<rparr>, as_threads = [(1, pc), (2, pc')]\<rparr>"

lemma race_overflows:
  "add_step\<^sup>*\<^sup>* (race AP_Start AP_Start [])
     (race (AP_Done True) (AP_Done True) [(1, peer_info_new 0 1), (2, peer_info_new 0 2)])"
proof -
  let ?e = "peer_info_new 0 :: nat \<Rightarrow> (nat, string) peer_info"
  have 1: "add_step (race AP_Start AP_Start []) (race AP_Admitted AP_Start [])"
    using add_step.len_room [of 0 "race AP_Start AP_Start []" 1] by (simp add: race_def peer_manager_new_def)
  have 2: "add_step (race AP_Admitted AP_Start []) (race AP_Admitted AP_Admitted [])"
    using add_step.len_room [of 1 "race AP_Admitted AP_Start []" 2] by (simp add: race_def peer_manager_new_def)
  have 3: "add_step (race AP_Admitted AP_Admitted []) (race AP_Inserting AP_Admitted [])"
    using add_step.unknown [of 0 "race AP_Admitted AP_Admitted []" 1] by (simp add: race_def peer_manager_new_def)
  have 4: "add_step (race AP_Inserting AP_Admitted []) (race AP_Inserting AP_Inserting [])"
    using add_step.unknown [of 1 "race AP_Inserting AP_Admitted []" 2] by (simp add: race_def peer_manager_new_def)
  have 5: "add_step (race AP_Inserting AP_Inserting []) (race (AP_Done True) AP_Inserting [(1, ?e 1)])"
    using add_step.insert_peer [of 0 "race AP_Inserting AP_Inserting []" 1 0] by (simp add: race_def peer_manager_new_def)
  have 6: "add_step (race (AP_Done True) AP_Inserting [(1, ?e 1)])
      (race (AP_Done True) (AP_Done True) [(1, ?e 1), (2, ?e 2)])"
    using add_step.insert_peer [of 1 "race (AP_Done True) AP_Inserting [(1, ?e 1)]" 2 0]
    by (simp add: race_def peer_manager_new_def)
  from 1 2 3 4 5 6 show ?thesis
    by (meson converse_rtranclp_into_rtranclp rtranclp.rtrancl_refl)
qed

theorem concurrent_add_bound_witness:
  "\<exists>s. add_step\<^sup>*\<^sup>* (race AP_Start AP_Start []) s
     \<and> hm_size (pm_peers (as_manager s)) = 2 \<and> 2 \<le> 1 + (length [1 :: nat, 2] - 1)"
proof -
  let ?s = "race (AP_Done True) (AP_Done True) [(1, peer_info_new 0 1), (2, peer_info_new 0 2)]"
  have "hm_size (pm_peers (as_manager ?s)) \<le> 1 + (length [1 :: nat, 2] - 1)"
    using concurrent_add_bound [of "peer_manager_new 1 1 100" "[1 :: nat, 2]" ?s] race_overflows
    by (simp add: race_def peer_manager_new_def)
  then show ?thesis
    using race_overflows by (intro exI [of _ ?s]) (simp add: race_def)
qed

end
