(* ===== verification/Security.thy ===== *)
theory Security
  imports Reputation Errors
begin

text \<open>
  The security features (\<open>src/security.rs\<close>): the sliding-window \<open>RateLimiter\<close> over message
  timestamps, and \<open>PeerReputation\<close> with its decaying scores and its blocklist. \<open>PeerId\<close> is a type
  variable and \<open>show_peer\<close> its \<open>to_string\<close>. Each clock reading of the source is an argument.
\<close>

section \<open>Sliding-window rate limiter\<close>

record 'p sliding_limiter =
  sl_rate_limit :: u32
  sl_window :: duration
  sl_peer_messages :: "('p, instant list) hmap"

definition sliding_new :: "u32 \<Rightarrow> 'p sliding_limiter" where
  "sliding_new rate_limit =
     \<lparr>sl_rate_limit = rate_limit, sl_window = duration_from_secs 1, sl_peer_messages = []\<rparr>"

definition sliding_with_window :: "u32 \<Rightarrow> duration \<Rightarrow> 'p sliding_limiter" where
  "sliding_with_window rate_limit window =
     \<lparr>sl_rate_limit = rate_limit, sl_window = window, sl_peer_messages = []\<rparr>"

text \<open>The loop that pops expired timestamps from the front of the queue.\<close>

fun drop_expired :: "instant \<Rightarrow> duration \<Rightarrow> instant list \<Rightarrow> instant list" where
  "drop_expired now window [] = []"
| "drop_expired now window (front # rest) =
     (if window < duration_since now front then drop_expired now window rest else front # rest)"

definition check_rate_limit ::
  "('p \<Rightarrow> string) \<Rightarrow> instant \<Rightarrow> 'p \<Rightarrow> 'p sliding_limiter \<Rightarrow> (network_error + unit) \<times> 'p sliding_limiter" where
  "check_rate_limit show_peer now peer_id l =
     (let entry = drop_expired now (sl_window l) (hm_entry peer_id [] (sl_peer_messages l))
      in if unat (sl_rate_limit l) \<le> length entry
         then (Inl (RateLimitExceeded (show_peer peer_id)),
               l\<lparr>sl_peer_messages := hm_put peer_id entry (sl_peer_messages l)\<rparr>)
         else (Inr (),
               l\<lparr>sl_peer_messages := hm_put peer_id (entry @ [now]) (sl_peer_messages l)\<rparr>))"

definition get_message_count :: "'p \<Rightarrow> 'p sliding_limiter \<Rightarrow> usize" where
  "get_message_count peer_id l =
     (case hm_get (sl_peer_messages l) peer_id of None \<Rightarrow> 0 | Some entry \<Rightarrow> length entry)"

definition clear_peer :: "'p \<Rightarrow> 'p sliding_limiter \<Rightarrow> 'p sliding_limiter" where
  "clear_peer peer_id l = l\<lparr>sl_peer_messages := hm_del peer_id (sl_peer_messages l)\<rparr>"

definition limiter_clear_all :: "'p sliding_limiter \<Rightarrow> 'p sliding_limiter" where
  "limiter_clear_all l = l\<lparr>sl_peer_messages := []\<rparr>"

definition tracked_peers_count :: "'p sliding_limiter \<Rightarrow> usize" where
  "tracked_peers_count l = hm_size (sl_peer_messages l)"

section \<open>Reputation\<close>

record reputation_score =
  rs_score :: u8
  rs_last_update :: instant
  rs_good_count :: u64
  rs_bad_count :: u64

record 'p blocklist_entry =
  bl_peer_id :: 'p
  bl_reason :: string
  bl_banned_at :: instant
  bl_duration :: duration

record 'p peer_reputation =
  pr_scores :: "('p, reputation_score) hmap"
  pr_blocklist :: "('p, 'p blocklist_entry) hmap"
  pr_decay_rate :: u8
  pr_ban_threshold :: u8
  pr_ban_duration :: duration

definition reputation_with_config :: "u8 \<Rightarrow> u8 \<Rightarrow> duration \<Rightarrow> 'p peer_reputation" where
  "reputation_with_config decay_rate ban_threshold ban_duration =
     \<lparr>pr_scores = [], pr_blocklist = [], pr_decay_rate = decay_rate,
      pr_ban_threshold = ban_threshold, pr_ban_duration = ban_duration\<rparr>"

definition reputation_new :: "'p peer_reputation" where
  "reputation_new =
     \<lparr>pr_scores = [], pr_blocklist = [], pr_decay_rate = 1, pr_ban_threshold = 10,
      pr_ban_duration = duration_from_secs 3600\<rparr>"

text \<open>\<open>hours as u8\<close> keeps the low eight bits; the multiplication after it saturates.\<close>

definition apply_decay :: "u8 \<Rightarrow> instant \<Rightarrow> reputation_score \<Rightarrow> u8" where
  "apply_decay decay_rate now s =
     (let elapsed = duration_since now (rs_last_update s);
          hours = as_secs elapsed div 3600;
          decay = sat_mul (word_of_nat hours) decay_rate
      in if 50 < rs_score s then max (sat_sub (rs_score s) decay) 50
         else min (sat_add (rs_score s) decay) 50)"

definition get_score :: "instant \<Rightarrow> 'p \<Rightarrow> 'p peer_reputation \<Rightarrow> u8" where
  "get_score now peer_id r =
     (case hm_get (pr_scores r) peer_id of
        None \<Rightarrow> 50
      | Some entry \<Rightarrow> apply_decay (pr_decay_rate r) now entry)"

definition neutral_score :: "instant \<Rightarrow> reputation_score" where
  "neutral_score now = \<lparr>rs_score = 50, rs_last_update = now, rs_good_count = 0, rs_bad_count = 0\<rparr>"

text \<open>
  The clock readings of one call, in the order of the source: for a new entry, for the decay, for
  \<open>last_update\<close>; then those of \<open>ban_peer\<close> or \<open>unban_peer\<close>, when the call gets there.
\<close>

record rep_clock =
  rk_insert :: instant
  rk_decay :: instant
  rk_update :: instant
  rk_banned_at :: instant
  rk_reset_insert :: instant
  rk_reset_update :: instant

definition score_increase :: "u8 \<Rightarrow> rep_clock \<Rightarrow> u8 \<Rightarrow> reputation_score \<Rightarrow> reputation_score" where
  "score_increase decay_rate clock amount entry =
     entry\<lparr>rs_score := min (sat_add (apply_decay decay_rate (rk_decay clock) entry) amount) 100,
           rs_last_update := rk_update clock, rs_good_count := rs_good_count entry + 1\<rparr>"

definition score_decrease :: "u8 \<Rightarrow> rep_clock \<Rightarrow> u8 \<Rightarrow> reputation_score \<Rightarrow> reputation_score" where
  "score_decrease decay_rate clock amount entry =
     entry\<lparr>rs_score := sat_sub (apply_decay decay_rate (rk_decay clock) entry) amount,
           rs_last_update := rk_update clock, rs_bad_count := rs_bad_count entry + 1\<rparr>"

definition rep_increase :: "rep_clock \<Rightarrow> 'p \<Rightarrow> u8 \<Rightarrow> 'p peer_reputation \<Rightarrow> 'p peer_reputation" where
  "rep_increase clock peer_id amount r =
     (let entry = hm_entry peer_id (neutral_score (rk_insert clock)) (pr_scores r)
      in r\<lparr>pr_scores := hm_put peer_id (score_increase (pr_decay_rate r) clock amount entry) (pr_scores r)\<rparr>)"

definition rep_ban :: "rep_clock \<Rightarrow> 'p \<Rightarrow> string \<Rightarrow> 'p peer_reputation \<Rightarrow> 'p peer_reputation" where
  "rep_ban clock peer_id reason r =
     (let block = \<lparr>bl_peer_id = peer_id, bl_reason = reason, bl_banned_at = rk_banned_at clock,
                   bl_duration = pr_ban_duration r\<rparr>;
          entry = hm_entry peer_id (neutral_score (rk_reset_insert clock)) (pr_scores r)
      in r\<lparr>pr_blocklist := hm_put peer_id block (pr_blocklist r),
           pr_scores := hm_put peer_id
             (entry\<lparr>rs_score := 0, rs_last_update := rk_reset_update clock\<rparr>) (pr_scores r)\<rparr>)"

definition rep_decrease ::
  "rep_clock \<Rightarrow> 'p \<Rightarrow> u8 \<Rightarrow> string \<Rightarrow> 'p peer_reputation \<Rightarrow> 'p peer_reputation" where
  "rep_decrease clock peer_id amount reason r =
     (let entry = score_decrease (pr_decay_rate r) clock amount
                    (hm_entry peer_id (neutral_score (rk_insert clock)) (pr_scores r));
          r1 = r\<lparr>pr_scores := hm_put peer_id entry (pr_scores r)\<rparr>
      in if rs_score entry < pr_ban_threshold r then rep_ban clock peer_id reason r1 else r1)"

definition rep_unban :: "rep_clock \<Rightarrow> 'p \<Rightarrow> 'p peer_reputation \<Rightarrow> 'p peer_reputation" where
  "rep_unban clock peer_id r =
     (if hm_has (pr_blocklist r) peer_id
      then let entry = hm_entry peer_id (neutral_score (rk_reset_insert clock)) (pr_scores r)
           in r\<lparr>pr_blocklist := hm_del peer_id (pr_blocklist r),
                pr_scores := hm_put peer_id
                  (entry\<lparr>rs_score := 50, rs_last_update := rk_reset_update clock\<rparr>) (pr_scores r)\<rparr>
      else r)"

definition is_banned :: "instant \<Rightarrow> rep_clock \<Rightarrow> 'p \<Rightarrow> 'p peer_reputation \<Rightarrow> bool \<times> 'p peer_reputation" where
  "is_banned now clock peer_id r =
     (case hm_get (pr_blocklist r) peer_id of
        None \<Rightarrow> (False, r)
      | Some entry \<Rightarrow>
          (if duration_since now (bl_banned_at entry) < bl_duration entry then (True, r)
           else (False, rep_unban clock peer_id r)))"

definition get_ban_reason :: "'p \<Rightarrow> 'p peer_reputation \<Rightarrow> string option" where
  "get_ban_reason peer_id r = map_option bl_reason (hm_get (pr_blocklist r) peer_id)"

definition ban_expired :: "instant \<Rightarrow> 'p blocklist_entry \<Rightarrow> bool" where
  "ban_expired now entry \<longleftrightarrow> bl_duration entry \<le> duration_since now (bl_banned_at entry)"

definition cleanup_expired_bans :: "instant \<Rightarrow> 'p peer_reputation \<Rightarrow> usize \<times> 'p peer_reputation" where
  "cleanup_expired_bans now r =
     (length (filter (\<lambda>(_, entry). ban_expired now entry) (pr_blocklist r)),
      r\<lparr>pr_blocklist := hm_retain (\<lambda>_ entry. \<not> ban_expired now entry) (pr_blocklist r)\<rparr>)"

record reputation_stats =
  rst_total_peers :: usize
  rst_good_peers :: usize
  rst_neutral_peers :: usize
  rst_bad_peers :: usize
  rst_banned_peers :: usize

text \<open>The loop over the scores; \<open>clocks\<close> has the clock reading of each iteration.\<close>

fun count_scores :: "u8 \<Rightarrow> ('p, reputation_score) hmap \<Rightarrow> (nat \<Rightarrow> instant) \<Rightarrow> usize \<times> usize \<times> usize
    \<Rightarrow> usize \<times> usize \<times> usize" where
  "count_scores rate [] clocks acc = acc"
| "count_scores rate ((_, entry) # es) clocks (good, neutral, bad) =
     (let score = apply_decay rate (clocks 0) entry
      in count_scores rate es (\<lambda>n. clocks (Suc n))
           (if 70 \<le> score then (good + 1, neutral, bad)
            else if 30 \<le> score then (good, neutral + 1, bad)
            else (good, neutral, bad + 1)))"

definition reputation_get_stats :: "(nat \<Rightarrow> instant) \<Rightarrow> 'p peer_reputation \<Rightarrow> reputation_stats" where
  "reputation_get_stats clocks r =
     (let (good, neutral, bad) = count_scores (pr_decay_rate r) (pr_scores r) clocks (0, 0, 0)
      in \<lparr>rst_total_peers = hm_size (pr_scores r), rst_good_peers = good, rst_neutral_peers = neutral,
          rst_bad_peers = bad, rst_banned_peers = hm_size (pr_blocklist r)\<rparr>)"

definition reputation_clear_all :: "'p peer_reputation \<Rightarrow> 'p peer_reputation" where
  "reputation_clear_all r = r\<lparr>pr_scores := [], pr_blocklist := []\<rparr>"

section \<open>The window of accepted messages\<close>

fun sliding_run ::
  "('p \<Rightarrow> string) \<Rightarrow> (instant \<times> 'p) list \<Rightarrow> 'p sliding_limiter \<Rightarrow> (network_error + unit) list" where
  "sliding_run sp [] l = []"
| "sliding_run sp ((now, p) # cs) l =
     (let (r, l') = check_rate_limit sp now p l in r # sliding_run sp cs l')"

text \<open>The times at which messages of a peer were let through, in the order of the calls.\<close>

definition passed :: "'p \<Rightarrow> (instant \<times> 'p) list \<Rightarrow> (network_error + unit) list \<Rightarrow> instant list" where
  "passed p cs rs = [t. ((t, q), r) \<leftarrow> zip cs rs, q = p \<and> r = Inr ()]"

definition recent :: "instant \<Rightarrow> duration \<Rightarrow> instant list \<Rightarrow> instant list" where
  "recent now window ts = filter (\<lambda>t. now - t \<le> window) ts"

lemma drop_expired_sorted:
  "sorted ts \<Longrightarrow> drop_expired now window ts = recent now window ts"
proof (induction ts)
  case Nil
  then show ?case by (simp add: recent_def)
next
  case (Cons t ts)
  have "recent now window ts = ts" if "now - t \<le> window"
    using Cons.prems that by (auto simp: recent_def intro!: filter_True)
  then show ?case
    using Cons by (auto simp: duration_since_def recent_def)
qed

lemma recent_recent: "n \<le> now \<Longrightarrow> recent now window (recent n window ts) = recent now window ts"
  by (auto simp: recent_def intro!: filter_cong)

text \<open>The queue of each peer is the recent part of what has been let through.\<close>

definition queues_are :: "('p \<Rightarrow> instant list) \<Rightarrow> instant \<Rightarrow> 'p sliding_limiter \<Rightarrow> bool" where
  "queues_are hist now l \<longleftrightarrow>
     (\<forall>p. sorted (hist p) \<and> (\<forall>t\<in>set (hist p). t \<le> now)
        \<and> (\<exists>n\<le>now. hm_entry p [] (sl_peer_messages l) = recent n (sl_window l) (hist p)))"

lemma hm_entry_put: "hm_entry p d (hm_put q v m) = (if p = q then v else hm_entry p d m)"
  by (simp add: hm_entry_def hm_get_put)

lemma check_rate_limit_queue:
  assumes "queues_are hist now0 l" and "now0 \<le> now" and "check_rate_limit sp now p l = (r, l')"
  shows "r = Inr () \<longleftrightarrow> length (recent now (sl_window l) (hist p)) < unat (sl_rate_limit l)"
    and "queues_are (if r = Inr () then hist(p := hist p @ [now]) else hist) now l'"
    and "sl_window l' = sl_window l" and "sl_rate_limit l' = sl_rate_limit l"
proof -
  let ?w = "sl_window l"
  from assms(1) obtain n where n: "n \<le> now0" "hm_entry p [] (sl_peer_messages l) = recent n ?w (hist p)"
    and sorted: "sorted (hist p)" by (auto simp: queues_are_def)
  have "sorted (recent n ?w (hist p))"
    using sorted by (simp add: recent_def sorted_wrt_filter)
  then have entry: "drop_expired now ?w (hm_entry p [] (sl_peer_messages l)) = recent now ?w (hist p)"
    using n assms(2) by (simp add: drop_expired_sorted recent_recent)
  show "r = Inr () \<longleftrightarrow> length (recent now ?w (hist p)) < unat (sl_rate_limit l)"
    and "sl_window l' = sl_window l" and "sl_rate_limit l' = sl_rate_limit l"
    using assms(3) by (auto simp: check_rate_limit_def entry Let_def split: if_splits)
  have old: "\<exists>n\<le>now. hm_entry q [] (sl_peer_messages l) = recent n ?w (hist q)" for q
    using assms(1,2) by (meson le_trans queues_are_def)
  have times: "sorted (hist q) \<and> (\<forall>t\<in>set (hist q). t \<le> now)" for q
    using assms(1,2) by (meson le_trans queues_are_def)
  show "queues_are (if r = Inr () then hist(p := hist p @ [now]) else hist) now l'"
  proof (cases "unat (sl_rate_limit l) \<le> length (recent now ?w (hist p))")
    case True
    then have "r \<noteq> Inr ()" and "sl_peer_messages l' = hm_put p (recent now ?w (hist p)) (sl_peer_messages l)"
      and "sl_window l' = ?w"
      using assms(3) by (auto simp: check_rate_limit_def entry Let_def)
    then show ?thesis
      using old times by (auto simp: queues_are_def hm_entry_put)
  next
    case False
    then have "r = Inr ()" and "sl_peer_messages l' = hm_put p (recent now ?w (hist p) @ [now]) (sl_peer_messages l)"
      and "sl_window l' = ?w"
      using assms(3) by (auto simp: check_rate_limit_def entry Let_def)
    then show ?thesis
      using old times by (auto simp: queues_are_def hm_entry_put sorted_append recent_def)
  qed
qed

definition in_window :: "instant \<Rightarrow> duration \<Rightarrow> instant list \<Rightarrow> instant list" where
  "in_window a window ts = filter (\<lambda>t. a \<le> t \<and> t \<le> a + window) ts"

lemma in_window_snoc:
  assumes "length (in_window a window ts) \<le> limit" and "length (recent now window ts) < limit"
  shows "length (in_window a window (ts @ [now])) \<le> limit"
proof (cases "a \<le> now \<and> now \<le> a + window")
  case True
  then have "in_window a window ts = in_window a window (recent now window ts)"
    by (auto simp: in_window_def recent_def intro!: filter_cong)
  then have "length (in_window a window ts) < limit"
    using assms(2) by (simp add: in_window_def order.strict_trans1 [OF length_filter_le])
  then show ?thesis by (simp add: in_window_def)
next
  case False
  then show ?thesis using assms(1) by (auto simp: in_window_def)
qed

lemma passed_Cons:
  "passed p ((now, q) # cs) (r # rs) = (if q = p \<and> r = Inr () then [now] else []) @ passed p cs rs"
  by (simp add: passed_def)

lemma passed_Nil [simp]: "passed p [] rs = []"
  by (simp add: passed_def)

lemma sliding_run_gen:
  assumes "queues_are hist now0 l" and "sorted (now0 # map fst cs)" and "rs = sliding_run sp cs l"
    and "\<forall>a p. length (in_window a (sl_window l) (hist p)) \<le> unat (sl_rate_limit l)"
  shows "length rs = length cs
    \<and> (\<forall>n<length cs. rs ! n = Inr () \<longleftrightarrow>
         length (recent (fst (cs ! n)) (sl_window l)
                   (hist (snd (cs ! n)) @ passed (snd (cs ! n)) (take n cs) rs)) < unat (sl_rate_limit l))
    \<and> (\<forall>a p. length (in_window a (sl_window l) (hist p @ passed p cs rs)) \<le> unat (sl_rate_limit l))"
  using assms
proof (induction cs arbitrary: hist now0 l rs)
  case Nil
  then show ?case by simp
next
  case (Cons c cs)
  obtain now p where c: "c = (now, p)" by fastforce
  obtain r l' where step: "check_rate_limit sp now p l = (r, l')" by fastforce
  define rs1 where "rs1 = sliding_run sp cs l'"
  have rs: "rs = r # rs1"
    using Cons.prems(3) by (simp add: c step rs1_def)
  have now: "now0 \<le> now" and sorted: "sorted (now # map fst cs)"
    using Cons.prems(2) by (simp_all add: c)
  note q = check_rate_limit_queue [OF Cons.prems(1) now step]
  let ?hist = "if r = Inr () then hist(p := hist p @ [now]) else hist"
  have "\<forall>a p. length (in_window a (sl_window l') (?hist p)) \<le> unat (sl_rate_limit l')"
    using Cons.prems(4) q(1) in_window_snoc [of _ "sl_window l" "hist p" "unat (sl_rate_limit l)" now]
    by (auto simp: q(3,4))
  note IH = Cons.IH [OF q(2) sorted rs1_def this]
  have hist: "?hist p' @ passed p' cs' rs1 = hist p' @ passed p' ((now, p) # cs') rs" for p' cs'
    by (simp add: rs passed_Cons)
  show ?case
    using IH q(1) unfolding hist q(3,4) by (simp add: rs c All_less_Suc2)
qed

lemma queues_are_new: "queues_are (\<lambda>_. []) now (sliding_with_window limit window)"
  by (auto simp: queues_are_def sliding_with_window_def hm_entry_def recent_def)

section \<open>Scores\<close>

text \<open>The decay of \<open>apply_decay\<close> as a number: what the truncated hours amount to.\<close>

definition decay_points :: "u8 \<Rightarrow> instant \<Rightarrow> reputation_score \<Rightarrow> nat" where
  "decay_points rate now s =
     min 255 ((as_secs (now - rs_last_update s) div 3600) mod 256 * unat rate)"

lemma unat_apply_decay:
  "unat (apply_decay rate now s) =
     (if 50 < unat (rs_score s) then max 50 (unat (rs_score s) - decay_points rate now s)
      else min 50 (unat (rs_score s) + decay_points rate now s))"
proof -
  have trunc: "unat (word_of_nat h :: u8) = h mod 256" for h
    by (simp add: unat_of_nat take_bit_eq_mod)
  have nested: "min (50 :: nat) (min x 255) = min 50 x" for x
    by simp
  show ?thesis
    by (simp add: apply_decay_def Let_def decay_points_def machine_simps word_less_nat_alt trunc nested
        duration_since_def max.commute [of _ 50] min.commute [of _ 50] min.commute [of 255])
qed

lemma apply_decay_neutral: "rs_score s = 50 \<Longrightarrow> apply_decay rate now s = 50"
  by (rule unsigned_word_eqI [where ?'a = nat]) (simp add: unat_apply_decay)

lemma apply_decay_le: "unat (rs_score s) \<le> 100 \<Longrightarrow> unat (apply_decay rate now s) \<le> 100"
  by (auto simp: unat_apply_decay max_def min_def)

interpretation scored: reputation rs_score "apply_decay rate (rk_decay clock)"
    "score_increase rate clock" "score_decrease rate clock"
  by unfold_locales
     (simp_all add: apply_decay_le score_increase_def score_decrease_def unat_capped_add unat_sat_sub)

definition scores_ok :: "'p peer_reputation \<Rightarrow> bool" where
  "scores_ok r \<longleftrightarrow> hm_wf (pr_scores r) \<and> hm_wf (pr_blocklist r)
     \<and> (\<forall>p s. hm_get (pr_scores r) p = Some s \<longrightarrow> unat (rs_score s) \<le> 100)
     \<and> (\<forall>p e. hm_get (pr_blocklist r) p = Some e \<longrightarrow>
           bl_peer_id e = p \<and> bl_duration e = pr_ban_duration r \<and> hm_has (pr_scores r) p)"

datatype 'p reputation_call =
    RC_Increase rep_clock 'p u8
  | RC_Decrease rep_clock 'p u8 string
  | RC_Ban rep_clock 'p string
  | RC_Unban rep_clock 'p
  | RC_IsBanned instant rep_clock 'p
  | RC_Cleanup instant
  | RC_Clear

fun reputation_step :: "'p reputation_call \<Rightarrow> 'p peer_reputation \<Rightarrow> 'p peer_reputation" where
  "reputation_step (RC_Increase clock p a) r = rep_increase clock p a r"
| "reputation_step (RC_Decrease clock p a reason) r = rep_decrease clock p a reason r"
| "reputation_step (RC_Ban clock p reason) r = rep_ban clock p reason r"
| "reputation_step (RC_Unban clock p) r = rep_unban clock p r"
| "reputation_step (RC_IsBanned now clock p) r = snd (is_banned now clock p r)"
| "reputation_step (RC_Cleanup now) r = snd (cleanup_expired_bans now r)"
| "reputation_step RC_Clear r = reputation_clear_all r"

lemma scores_ok_entry:
  "scores_ok r \<Longrightarrow> unat (rs_score (hm_entry p (neutral_score t) (pr_scores r))) \<le> 100"
  by (auto simp: hm_entry_def neutral_score_def scores_ok_def split: option.split simp del: map_of_eq_Some_iff)

text \<open>Writing one score within the range.\<close>

lemma scores_ok_put:
  assumes "scores_ok r" and "unat (rs_score s) \<le> 100"
  shows "scores_ok (r\<lparr>pr_scores := hm_put p s (pr_scores r)\<rparr>)"
  using assms by (auto simp: scores_ok_def hm_simps split: if_splits simp del: map_of_eq_Some_iff)

lemma scores_ok_ban: "scores_ok r \<Longrightarrow> scores_ok (rep_ban clock p reason r)"
  by (auto simp: rep_ban_def Let_def scores_ok_def hm_simps split: if_splits simp del: map_of_eq_Some_iff)

lemma scores_ok_unban: "scores_ok r \<Longrightarrow> scores_ok (rep_unban clock p r)"
  by (auto simp: rep_unban_def Let_def scores_ok_def hm_simps split: if_splits simp del: map_of_eq_Some_iff)

lemma reputation_step_ok: "scores_ok r \<Longrightarrow> scores_ok (reputation_step c r)"
proof (induction c)
  case (RC_Increase clock p a)
  then show ?case
    using scored.good_le by (simp add: rep_increase_def Let_def scores_ok_put)
next
  case (RC_Decrease clock p a reason)
  then show ?case
    using scored.bad_le [OF scores_ok_entry [OF RC_Decrease]]
    by (simp add: rep_decrease_def Let_def scores_ok_put scores_ok_ban)
next
  case (RC_Cleanup now)
  then show ?case
    by (auto simp: cleanup_expired_bans_def scores_ok_def hm_simps
        split: option.splits if_splits simp del: map_of_eq_Some_iff)
next
  case RC_Clear
  then show ?case by (simp add: reputation_clear_all_def scores_ok_def)
qed (simp_all add: scores_ok_ban scores_ok_unban is_banned_def split: option.split)

interpretation reputation_table: invariant_machine reputation_step scores_ok
  by unfold_locales (rule reputation_step_ok)

lemma count_scores_total:
  "count_scores rate es clocks (g, n, b) = (g', n', b') \<Longrightarrow> g' + n' + b' = g + n + b + length es"
proof (induction es arbitrary: clocks g n b)
  case Nil
  then show ?case by simp
next
  case (Cons e es)
  obtain p s where "e = (p, s)" by fastforce
  with Cons show ?case by (fastforce simp: Let_def split: if_splits)
qed

section \<open>Properties\<close>

text \<open>
  C10: the sliding window is exact. Over any sequence of messages in time order, from any number of
  peers, a message is let through exactly when fewer than \<open>rate_limit\<close> messages of that peer were
  let through in the preceding window (rejected ones do not count); hence no peer ever gets more
  than \<open>rate_limit\<close> messages through in any closed window of time, wherever it starts.
\<close>

theorem sliding_window_exact:
  assumes "sorted (map fst cs)" and "rs = sliding_run show_peer cs (sliding_with_window limit window)"
  shows "length rs = length cs
    \<and> (\<forall>n<length cs. rs ! n = Inr () \<longleftrightarrow>
         length (filter (\<lambda>t. fst (cs ! n) - t \<le> window) (passed (snd (cs ! n)) (take n cs) rs)) < unat limit)
    \<and> length (filter (\<lambda>t. a \<le> t \<and> t \<le> a + window) (passed p cs rs)) \<le> unat limit"
proof -
  have new: "sl_window (sliding_with_window limit window :: 'a sliding_limiter) = window"
    "sl_rate_limit (sliding_with_window limit window :: 'a sliding_limiter) = limit"
    by (simp_all add: sliding_with_window_def)
  have "sorted (0 # map fst cs)" using assms(1) by simp
  from sliding_run_gen [OF queues_are_new this assms(2)] show ?thesis
    by (simp add: new recent_def in_window_def)
qed

theorem sliding_window_exact_witness:
  "let cs = [(0, ''a''), (1, ''a''), (2, ''b''), (3, ''a''), (12, ''a'')];
       rs = sliding_run (\<lambda>p. p) cs (sliding_with_window 2 10)
   in map isl rs = [False, False, False, True, False]
      \<and> length (filter (\<lambda>t. 2 \<le> t \<and> t \<le> 2 + 10) (passed ''a'' cs rs)) \<le> 2"
  using sliding_window_exact [of "[(0, ''a''), (1, ''a''), (2, ''b''), (3, ''a''), (12, ''a'')]" _
      "\<lambda>p. p" 2 10 2 "''a''", OF _ refl]
  by (simp add: sliding_with_window_def check_rate_limit_def Let_def hm_entry_def duration_since_def)

text \<open>
  C21: scores stay in range. After any sequence of calls on a reputation system of any
  configuration every reported score is at most 100, no peer has two scores or two bans, every
  banned peer has a score, and the three classes of the statistics add up to the total.
\<close>

theorem reputation_scores_sound:
  "let r = fold reputation_step calls (reputation_with_config rate threshold duration);
       st = reputation_get_stats clocks r
   in unat (get_score now p r) \<le> 100
      \<and> distinct (map fst (pr_scores r)) \<and> distinct (map fst (pr_blocklist r))
      \<and> fst ` set (pr_blocklist r) \<subseteq> fst ` set (pr_scores r)
      \<and> rst_good_peers st + rst_neutral_peers st + rst_bad_peers st = rst_total_peers st"
proof -
  define r where "r = fold reputation_step calls (reputation_with_config rate threshold duration)"
  have "scores_ok (reputation_with_config rate threshold duration :: 'a peer_reputation)"
    by (simp add: scores_ok_def reputation_with_config_def)
  from reputation_table.run_inv [OF this, of calls] have ok: "scores_ok r"
    by (simp add: r_def)
  have "unat (get_score now p r) \<le> 100"
    using ok by (auto simp: get_score_def scores_ok_def intro!: apply_decay_le
        split: option.split simp del: map_of_eq_Some_iff)
  moreover have "fst ` set (pr_blocklist r) \<subseteq> fst ` set (pr_scores r)"
    using ok by (force simp: scores_ok_def image_iff)
  moreover obtain g n b where c: "count_scores (pr_decay_rate r) (pr_scores r) clocks (0, 0, 0) = (g, n, b)"
    by (cases "count_scores (pr_decay_rate r) (pr_scores r) clocks (0, 0, 0)")
  moreover from count_scores_total [OF c] have "g + n + b = length (pr_scores r)" by simp
  ultimately show ?thesis
    using ok by (simp add: reputation_get_stats_def scores_ok_def flip: r_def)
qed

text \<open>
  C36: decay. Within the first 256 hours a score moves towards 50 by \<open>decay_rate\<close> points (capped
  at 255) for each full hour and stops there; it never crosses 50. But the hours are truncated to
  eight bits, so after 256 more hours the same score is reported as if no time had passed.
\<close>

theorem decay_wraps:
  assumes "rs_last_update s \<le> now"
  shows "((now - rs_last_update s) div 3600000000000 < 256 \<longrightarrow>
            unat (apply_decay rate now s) =
              (let d = min 255 ((now - rs_last_update s) div 3600000000000 * unat rate)
               in if 50 < unat (rs_score s) then max 50 (unat (rs_score s) - d)
                  else min 50 (unat (rs_score s) + d)))
       \<and> (50 \<le> rs_score s \<longrightarrow> 50 \<le> apply_decay rate now s \<and> apply_decay rate now s \<le> rs_score s)
       \<and> (rs_score s \<le> 50 \<longrightarrow> rs_score s \<le> apply_decay rate now s \<and> apply_decay rate now s \<le> 50)
       \<and> apply_decay rate (now + 256 * 3600000000000) s = apply_decay rate now s"
proof -
  have hours: "as_secs d div 3600 = d div 3600000000000" for d
    by (simp add: as_secs_def flip: div_mult2_eq)
  have "(now + 256 * 3600000000000 - rs_last_update s) div 3600000000000 mod 256
      = (now - rs_last_update s) div 3600000000000 mod 256"
  proof -
    have "now + 256 * 3600000000000 - rs_last_update s = 256 * 3600000000000 + (now - rs_last_update s)"
      using assms by simp
    also have "\<dots> div 3600000000000 = 256 + (now - rs_last_update s) div 3600000000000"
      by simp
    finally show ?thesis by simp
  qed
  then have "unat (apply_decay rate (now + 256 * 3600000000000) s) = unat (apply_decay rate now s)"
    by (simp only: unat_apply_decay decay_points_def hours)
  then have wraps: "apply_decay rate (now + 256 * 3600000000000) s = apply_decay rate now s"
    by (rule unsigned_word_eqI)
  have points: "(now - rs_last_update s) div 3600000000000 < 256 \<Longrightarrow>
      decay_points rate now s = min 255 ((now - rs_last_update s) div 3600000000000 * unat rate)"
    by (simp add: decay_points_def hours)
  have above: "50 \<le> rs_score s \<longrightarrow> 50 \<le> apply_decay rate now s \<and> apply_decay rate now s \<le> rs_score s"
    and below: "rs_score s \<le> 50 \<longrightarrow> rs_score s \<le> apply_decay rate now s \<and> apply_decay rate now s \<le> 50"
    by (auto simp: word_le_nat_alt unat_apply_decay)
  show ?thesis
    using wraps above below by (simp add: unat_apply_decay points Let_def)
qed

theorem decay_wraps_witness:
  "unat (apply_decay 1 (40 * 3600000000000) (neutral_score 0\<lparr>rs_score := 0\<rparr>)) = 40
   \<and> apply_decay 1 (40 * 3600000000000 + 256 * 3600000000000) (neutral_score 0\<lparr>rs_score := 0\<rparr>)
     = apply_decay 1 (40 * 3600000000000) (neutral_score 0\<lparr>rs_score := 0\<rparr>)"
  using decay_wraps [of "neutral_score 0\<lparr>rs_score := 0\<rparr>" "40 * 3600000000000" 1]
  by (simp add: neutral_score_def)

text \<open>
  C24: the life of a ban. A banned peer is reported banned, with its reason, exactly while less
  than the ban duration has passed, and no cleanup ends the ban earlier. Afterwards the two ways to
  end it differ: the first \<open>is_banned\<close> query restores the neutral score of 50, whereas
  \<open>cleanup_expired_bans\<close> drops the ban and leaves the score at 0 plus its decay.
\<close>

theorem ban_lifecycle:
  assumes "distinct (map fst (pr_blocklist r))"
  shows "(now - rk_banned_at c < pr_ban_duration r \<longrightarrow>
            is_banned now c' p (rep_ban c p reason r) = (True, rep_ban c p reason r)
          \<and> get_ban_reason p (snd (cleanup_expired_bans now (rep_ban c p reason r))) = Some reason)
       \<and> (pr_ban_duration r \<le> now - rk_banned_at c \<longrightarrow>
            \<not> fst (is_banned now c' p (rep_ban c p reason r))
          \<and> get_ban_reason p (snd (is_banned now c' p (rep_ban c p reason r))) = None
          \<and> get_score later p (snd (is_banned now c' p (rep_ban c p reason r))) = 50
          \<and> get_ban_reason p (snd (cleanup_expired_bans now (rep_ban c p reason r))) = None
          \<and> unat (get_score later p (snd (cleanup_expired_bans now (rep_ban c p reason r)))) =
              min 50 (min 255 ((as_secs (later - rk_reset_update c) div 3600) mod 256 * unat (pr_decay_rate r))))"
proof -
  let ?b = "rep_ban c p reason r"
  have block: "hm_get (pr_blocklist ?b) p = Some \<lparr>bl_peer_id = p, bl_reason = reason,
      bl_banned_at = rk_banned_at c, bl_duration = pr_ban_duration r\<rparr>"
    and wf: "hm_wf (pr_blocklist ?b)"
    using assms by (simp_all add: rep_ban_def Let_def hm_simps)
  obtain s where s: "hm_get (pr_scores ?b) p = Some s" "rs_score s = 0" "rs_last_update s = rk_reset_update c"
    by (simp add: rep_ban_def Let_def hm_simps)
  have reason: "get_ban_reason p (snd (cleanup_expired_bans now ?b)) =
      (if pr_ban_duration r \<le> now - rk_banned_at c then None else Some reason)"
    by (simp add: get_ban_reason_def cleanup_expired_bans_def hm_get_retain [OF wf] block ban_expired_def
        duration_since_def)
  have score: "unat (get_score later p (snd (cleanup_expired_bans now ?b))) =
      min 50 (min 255 ((as_secs (later - rk_reset_update c) div 3600) mod 256 * unat (pr_decay_rate r)))"
    using s by (simp add: get_score_def cleanup_expired_bans_def unat_apply_decay decay_points_def
        rep_ban_def Let_def hm_get_put)
  have "get_score later p (rep_unban c' p ?b) = 50" and "get_ban_reason p (rep_unban c' p ?b) = None"
    by (simp_all add: rep_unban_def block get_score_def Let_def hm_simps apply_decay_neutral get_ban_reason_def)
  then show ?thesis
    using reason score by (simp add: is_banned_def block duration_since_def)
qed

definition clock_all :: "instant \<Rightarrow> rep_clock" where
  "clock_all t = \<lparr>rk_insert = t, rk_decay = t, rk_update = t, rk_banned_at = t, rk_reset_insert = t,
                  rk_reset_update = t\<rparr>"

theorem ban_lifecycle_witness:
  "get_score (3600000000000 * 2) (7 :: nat)
     (snd (is_banned 3600000000000 (clock_all 3600000000000) 7 (rep_ban (clock_all 0) 7 ''spam'' reputation_new))) = 50
   \<and> unat (get_score (3600000000000 * 2) (7 :: nat)
     (snd (cleanup_expired_bans 3600000000000 (rep_ban (clock_all 0) 7 ''spam'' reputation_new)))) = 2"
proof -
  have "distinct (map fst (pr_blocklist (reputation_new :: nat peer_reputation)))"
    by (simp add: reputation_new_def)
  from ban_lifecycle [OF this, of 3600000000000 "clock_all 0" "clock_all 3600000000000" 7 "''spam''"
      "3600000000000 * 2"]
  show ?thesis
    by (simp add: reputation_new_def clock_all_def duration_from_secs_def as_secs_def)
qed

text \<open>
  Automatic bans. Bad behaviour takes the decayed score down by \<open>amount\<close>, not below 0, and the
  peer is put on the blocklist, with the score reset to 0, exactly when the result is below the
  threshold; other peers are not touched.
\<close>

lemma auto_ban_threshold:
  "let old = unat (get_score (rk_decay c) p r); new = old - unat amount; r' = rep_decrease c p amount reason r
   in map_option rs_score (hm_get (pr_scores r') p) =
        Some (if new < unat (pr_ban_threshold r) then 0 else word_of_nat new)
    \<and> get_ban_reason p r' =
        (if new < unat (pr_ban_threshold r) then Some reason else get_ban_reason p r)
    \<and> (q \<noteq> p \<longrightarrow> get_score t q r' = get_score t q r \<and> get_ban_reason q r' = get_ban_reason q r)"
proof -
  let ?e = "hm_entry p (neutral_score (rk_insert c)) (pr_scores r)"
  let ?s = "score_decrease (pr_decay_rate r) c amount ?e"
  have old: "get_score (rk_decay c) p r = apply_decay (pr_decay_rate r) (rk_decay c) ?e"
    by (simp add: get_score_def hm_entry_def apply_decay_neutral neutral_score_def split: option.split)
  have new: "unat (rs_score ?s) = unat (get_score (rk_decay c) p r) - unat amount"
    unfolding old by (rule scored.bad_score)
  have new_word: "rs_score ?s = word_of_nat (unat (get_score (rk_decay c) p r) - unat amount)"
    by (simp flip: new)
  have others: "q \<noteq> p \<longrightarrow> get_score t q (rep_decrease c p amount reason r) = get_score t q r
      \<and> get_ban_reason q (rep_decrease c p amount reason r) = get_ban_reason q r"
    by (simp add: rep_decrease_def rep_ban_def Let_def get_score_def get_ban_reason_def hm_get_put
        split: option.split)
  have this_peer: "map_option rs_score (hm_get (pr_scores (rep_decrease c p amount reason r)) p) =
        Some (if rs_score ?s < pr_ban_threshold r then 0 else rs_score ?s)"
    and this_ban: "get_ban_reason p (rep_decrease c p amount reason r) =
        (if rs_score ?s < pr_ban_threshold r then Some reason else get_ban_reason p r)"
    by (simp_all add: rep_decrease_def rep_ban_def Let_def get_ban_reason_def hm_get_put)
  have threshold: "rs_score ?s < pr_ban_threshold r \<longleftrightarrow>
      unat (get_score (rk_decay c) p r) - unat amount < unat (pr_ban_threshold r)"
    by (simp only: word_less_nat_alt new)
  show ?thesis
    unfolding Let_def new_word [symmetric] threshold [symmetric]
    by (intro conjI this_peer this_ban others)
qed

lemma auto_ban_threshold_witness:
  "get_ban_reason (1 :: nat) (rep_decrease (clock_all 0) 1 60 ''spam'' reputation_new) = Some ''spam''
   \<and> get_ban_reason (2 :: nat) (rep_decrease (clock_all 0) 1 60 ''spam'' reputation_new) = None"
proof -
  have "get_score t p reputation_new = 50" and "get_ban_reason p reputation_new = None"
    and "pr_ban_threshold (reputation_new :: nat peer_reputation) = 10" for t and p :: nat
    by (simp_all add: get_score_def get_ban_reason_def reputation_new_def)
  then show ?thesis
    using auto_ban_threshold [of "clock_all 0" "1 :: nat" reputation_new 60 "''spam''" 2 0] by (simp add: Let_def)
qed

end
