(* ===== verification/Security_Races.thy ===== *)
theory Security_Races
  imports Security
begin

text \<open>
  Bans under concurrency (\<open>is_banned\<close>, \<open>ban_peer\<close> and \<open>unban_peer\<close> of \<open>src/security.rs\<close>). The
  methods take \<open>&self\<close> and each access of one of the two maps is atomic, but \<open>is_banned\<close> releases
  the entry of an expired ban before it calls \<open>unban_peer\<close>, and banning reads the clock, writes the
  blocklist and writes the score in three separate steps. A thread runs one call; a step is one
  access or one reading of the clock outside of an access. New calls may start at any time.
\<close>

section \<open>Threads\<close>

text \<open>
  \<open>is_banned\<close> goes from \<open>BP_Look\<close>, over \<open>BP_Remove\<close> and \<open>BP_Restore\<close> when the ban has expired;
  \<open>ban_peer\<close> goes from \<open>BP_Ban\<close>, where it reads the clock into the entry it builds, over \<open>BP_Insert\<close>
  with that entry's time, to \<open>BP_Punish\<close>. An access of \<open>is_banned\<close> or to a score holds the entry
  while it reads the clock.
\<close>

datatype ban_pc =
    BP_Look
  | BP_Remove
  | BP_Restore
  | BP_Ban string
  | BP_Insert string instant
  | BP_Punish
  | BP_Done

record 'p ban_state =
  bs_reputation :: "'p peer_reputation"
  bs_threads :: "('p \<times> ban_pc) list"

definition set_score :: "u8 \<Rightarrow> instant \<Rightarrow> 'p \<Rightarrow> 'p peer_reputation \<Rightarrow> 'p peer_reputation" where
  "set_score score now p r = r\<lparr>pr_scores := hm_put p
     (hm_entry p (neutral_score now) (pr_scores r)\<lparr>rs_score := score, rs_last_update := now\<rparr>) (pr_scores r)\<rparr>"

definition insert_ban :: "instant \<Rightarrow> 'p \<Rightarrow> string \<Rightarrow> 'p peer_reputation \<Rightarrow> 'p peer_reputation" where
  "insert_ban banned_at p reason r = r\<lparr>pr_blocklist := hm_put p
     \<lparr>bl_peer_id = p, bl_reason = reason, bl_banned_at = banned_at, bl_duration = pr_ban_duration r\<rparr> (pr_blocklist r)\<rparr>"

text \<open>One access of a thread: the reputation and the thread's next program point.\<close>

fun ban_access ::
  "instant \<Rightarrow> 'p \<Rightarrow> ban_pc \<Rightarrow> 'p peer_reputation \<Rightarrow> ban_pc \<times> 'p peer_reputation" where
  "ban_access now p BP_Look r =
     (case hm_get (pr_blocklist r) p of
        None \<Rightarrow> (BP_Done, r)
      | Some e \<Rightarrow> (if duration_since now (bl_banned_at e) < bl_duration e then BP_Done else BP_Remove, r))"
| "ban_access now p BP_Remove r =
     (if hm_has (pr_blocklist r) p then (BP_Restore, r\<lparr>pr_blocklist := hm_del p (pr_blocklist r)\<rparr>)
      else (BP_Done, r))"
| "ban_access now p BP_Restore r = (BP_Done, set_score 50 now p r)"
| "ban_access now p (BP_Ban reason) r = (BP_Insert reason now, r)"
| "ban_access now p (BP_Insert reason banned_at) r = (BP_Punish, insert_ban banned_at p reason r)"
| "ban_access now p BP_Punish r = (BP_Done, set_score 0 now p r)"
| "ban_access now p BP_Done r = (BP_Done, r)"

inductive ban_step :: "instant \<Rightarrow> 'p ban_state \<Rightarrow> 'p ban_state \<Rightarrow> bool" where
  access: "n < length (bs_threads s) \<Longrightarrow> bs_threads s ! n = (p, pc)
     \<Longrightarrow> ban_access now p pc (bs_reputation s) = (pc', r')
     \<Longrightarrow> ban_step now s \<lparr>bs_reputation = r', bs_threads = (bs_threads s)[n := (p, pc')]\<rparr>"
| enter_query: "ban_step now s (s\<lparr>bs_threads := bs_threads s @ [(p, BP_Look)]\<rparr>)"
| enter_ban: "ban_step now s (s\<lparr>bs_threads := bs_threads s @ [(p, BP_Ban reason)]\<rparr>)"

text \<open>Steps whose clock readings lie in a half-open span of time.\<close>

definition ban_steps_in :: "instant \<Rightarrow> instant \<Rightarrow> 'p ban_state \<Rightarrow> 'p ban_state \<Rightarrow> bool" where
  "ban_steps_in from until s s' \<longleftrightarrow> (\<exists>now. from \<le> now \<and> now < until \<and> ban_step now s s')"

section \<open>One thread alone runs the method\<close>

fun lone_run :: "nat \<Rightarrow> instant \<Rightarrow> 'p \<Rightarrow> ban_pc \<Rightarrow> 'p peer_reputation \<Rightarrow> ban_pc \<times> 'p peer_reputation" where
  "lone_run 0 now p pc r = (pc, r)"
| "lone_run (Suc n) now p pc r = (let (pc', r') = ban_access now p pc r in lone_run n now p pc' r')"

lemma lone_ban: "lone_run 3 now p (BP_Ban reason) r = (BP_Done, rep_ban (clock_all now) p reason r)"
  by (simp add: numeral_3_eq_3 insert_ban_def set_score_def rep_ban_def clock_all_def)

lemma lone_is_banned:
  "lone_run 3 now p BP_Look r = (BP_Done, snd (is_banned now (clock_all now) p r))"
  by (auto simp: numeral_3_eq_3 is_banned_def rep_unban_def set_score_def clock_all_def Let_def split: option.split)

section \<open>When a ban survives\<close>

text \<open>
  A thread that ends or shortens the ban when it goes on: it found an earlier ban expired and will
  remove the entry, or it read the clock before the ban and will overwrite it.
\<close>

definition endangers :: "instant \<Rightarrow> 'p \<Rightarrow> 'p \<times> ban_pc \<Rightarrow> bool" where
  "endangers from p th \<longleftrightarrow> th = (p, BP_Remove) \<or> (\<exists>reason t. th = (p, BP_Insert reason t) \<and> t < from)"

definition long_ban :: "instant \<Rightarrow> duration \<Rightarrow> 'p \<Rightarrow> 'p peer_reputation \<Rightarrow> bool" where
  "long_ban from d p r \<longleftrightarrow> pr_ban_duration r = d \<and> hm_wf (pr_blocklist r)
     \<and> (\<exists>e. hm_get (pr_blocklist r) p = Some e \<and> from \<le> bl_banned_at e \<and> bl_duration e = d)"

definition ban_holds :: "instant \<Rightarrow> duration \<Rightarrow> 'p \<Rightarrow> 'p ban_state \<Rightarrow> bool" where
  "ban_holds from d p s \<longleftrightarrow>
     long_ban from d p (bs_reputation s) \<and> (\<forall>th\<in>set (bs_threads s). \<not> endangers from p th)"

lemma ban_access_holds:
  assumes "ban_access now q pc r = (pc', r')" and "from \<le> now" and "now < from + d"
    and "long_ban from d p r" and "\<not> endangers from p (q, pc)"
  shows "long_ban from d p r' \<and> \<not> endangers from p (q, pc')"
proof (cases pc)
  case BP_Look
  then have "r' = r" and "q = p \<Longrightarrow> pc' = BP_Done" and "\<And>reason t. pc' \<noteq> BP_Insert reason t"
    using assms
    by (auto simp: long_ban_def duration_since_def split: option.splits if_splits simp del: map_of_eq_Some_iff)
  then show ?thesis using assms(4) by (auto simp: endangers_def)
next
  case BP_Remove
  then show ?thesis
    using assms by (auto simp: long_ban_def endangers_def hm_simps split: if_splits simp del: map_of_eq_Some_iff)
qed (use assms in \<open>auto simp: long_ban_def endangers_def hm_simps insert_ban_def set_score_def split: if_splits
      simp del: map_of_eq_Some_iff\<close>)

lemma ban_holds_step:
  assumes "ban_holds from d p s" and "ban_steps_in from (from + d) s s'"
  shows "ban_holds from d p s'"
proof -
  obtain now where now: "from \<le> now" "now < from + d" and step: "ban_step now s s'"
    using assms(2) by (auto simp: ban_steps_in_def)
  from step show ?thesis
  proof cases
    case (access n q pc pc' r')
    then have "\<not> endangers from p (q, pc)" and "long_ban from d p (bs_reputation s)"
      using assms(1) by (auto simp: ban_holds_def dest: nth_mem)
    from ban_access_holds [OF access(4) now this(2,1)] assms(1) show ?thesis
      by (auto simp: access(1) ban_holds_def dest: set_update_subset_insert [THEN subsetD])
  qed (use assms(1) in \<open>auto simp: ban_holds_def endangers_def\<close>)
qed

lemma ban_holds_run:
  "(ban_steps_in from (from + d))\<^sup>*\<^sup>* s s' \<Longrightarrow> ban_holds from d p s \<Longrightarrow> ban_holds from d p s'"
  by (induction rule: rtranclp_induct) (auto intro: ban_holds_step)

section \<open>When a ban ends early\<close>

lemma steps_inI:
  "ban_step now s s' \<Longrightarrow> from \<le> now \<Longrightarrow> now < until \<Longrightarrow> ban_steps_in from until s s'"
  by (auto simp: ban_steps_in_def)

text \<open>A thread that is about to remove the entry does so.\<close>

lemma remove_ends_ban:
  assumes "(p, BP_Remove) \<in> set (bs_threads s)" and "hm_has (pr_blocklist (bs_reputation s)) p"
    and "hm_wf (pr_blocklist (bs_reputation s))"
  shows "\<exists>s'. ban_step now s s' \<and> get_ban_reason p (bs_reputation s') = None"
proof -
  obtain n where n: "n < length (bs_threads s)" "bs_threads s ! n = (p, BP_Remove)"
    using assms(1) by (auto simp: in_set_conv_nth)
  let ?r = "(bs_reputation s)\<lparr>pr_blocklist := hm_del p (pr_blocklist (bs_reputation s))\<rparr>"
  have "ban_step now s \<lparr>bs_reputation = ?r, bs_threads = (bs_threads s)[n := (p, BP_Restore)]\<rparr>"
    using assms(2) by (intro access [OF n]) simp
  moreover have "get_ban_reason p ?r = None"
    using assms(3) by (simp add: get_ban_reason_def hm_simps)
  ultimately show ?thesis by fastforce
qed

text \<open>A query that comes when the entry looks expired gets to the point of removing it.\<close>

lemma query_finds_expired:
  assumes "hm_get (pr_blocklist (bs_reputation s)) p = Some e" and "bl_duration e \<le> duration_since now (bl_banned_at e)"
  shows "\<exists>s1 s2. ban_step now s s1 \<and> ban_step now s1 s2 \<and> (p, BP_Remove) \<in> set (bs_threads s2)
    \<and> bs_reputation s2 = bs_reputation s"
proof -
  let ?s1 = "s\<lparr>bs_threads := bs_threads s @ [(p, BP_Look)]\<rparr>"
  let ?n = "length (bs_threads s)"
  have "ban_step now s ?s1" by (rule enter_query)
  moreover have "ban_step now ?s1 \<lparr>bs_reputation = bs_reputation s, bs_threads = (bs_threads ?s1)[?n := (p, BP_Remove)]\<rparr>"
    using assms by (intro access [of ?n _ p BP_Look]) (simp_all del: map_of_eq_Some_iff)
  ultimately show ?thesis by (fastforce simp: list_update_append)
qed

lemma endangered_ban_ends:
  assumes e: "hm_get (pr_blocklist (bs_reputation s)) p = Some e" and wf: "hm_wf (pr_blocklist (bs_reputation s))"
    and d: "bl_duration e = pr_ban_duration (bs_reputation s)" and pos: "0 < bl_duration e"
    and th: "th \<in> set (bs_threads s)" "endangers (bl_banned_at e) p th"
  shows "\<exists>s'. (ban_steps_in (bl_banned_at e) (bl_banned_at e + bl_duration e))\<^sup>*\<^sup>* s s'
    \<and> get_ban_reason p (bs_reputation s') = None"
proof -
  let ?from = "bl_banned_at e" and ?d = "bl_duration e"
  let ?steps = "ban_steps_in ?from (?from + ?d)"
  consider "th = (p, BP_Remove)" | reason t where "th = (p, BP_Insert reason t)" "t < ?from"
    using th(2) by (auto simp: endangers_def)
  then show ?thesis
  proof cases
    case 1
    with remove_ends_ban [of p s ?from] th(1) e wf obtain s' where "ban_step ?from s s'"
      and "get_ban_reason p (bs_reputation s') = None" by auto
    then show ?thesis using pos by (blast intro: steps_inI r_into_rtranclp less_add_same_cancel1 [THEN iffD2])
  next
    case 2
    let ?late = "?from + ?d - 1"
    obtain n where n: "n < length (bs_threads s)" "bs_threads s ! n = (p, BP_Insert reason t)"
      using th(1) 2 by (auto simp: in_set_conv_nth)
    define s1 where "s1 = \<lparr>bs_reputation = insert_ban t p reason (bs_reputation s),
      bs_threads = (bs_threads s)[n := (p, BP_Punish)]\<rparr>"
    have s1: "ban_step ?from s s1" unfolding s1_def by (rule access [OF n]) simp
    have wf1: "hm_wf (pr_blocklist (bs_reputation s1))" using wf by (simp add: s1_def insert_ban_def hm_simps)
    have get1: "hm_get (pr_blocklist (bs_reputation s1)) p =
        Some \<lparr>bl_peer_id = p, bl_reason = reason, bl_banned_at = t, bl_duration = ?d\<rparr>"
      by (simp add: s1_def insert_ban_def d hm_simps del: map_of_eq_Some_iff)
    have "?d \<le> duration_since ?late t" using 2(2) pos by (simp add: duration_since_def)
    with query_finds_expired [OF get1, of ?late] obtain s2 s3 where
      s3: "ban_step ?late s1 s2" "ban_step ?late s2 s3" "(p, BP_Remove) \<in> set (bs_threads s3)"
        "bs_reputation s3 = bs_reputation s1" by auto
    with remove_ends_ban [of p s3 ?late] get1 wf1 obtain s4 where
      s4: "ban_step ?late s3 s4" "get_ban_reason p (bs_reputation s4) = None" by auto
    have "?steps s s1" "?steps s1 s2" "?steps s2 s3" "?steps s3 s4"
      using s1 s3 s4 pos by (simp_all add: steps_inI)
    then have "?steps\<^sup>*\<^sup>* s s4"
      by (meson converse_rtranclp_into_rtranclp rtranclp.rtrancl_refl)
    then show ?thesis using s4(2) by blast
  qed
qed

section \<open>Property\<close>

text \<open>
  C14: exactly when a fresh ban is safe. Let a peer be on the blocklist with the configured duration,
  not zero. Whatever threads query and ban while the ban lasts, new calls included (but no call of
  \<open>unban_peer\<close> by itself), the peer stays on the blocklist if and only if at the start no thread is between
  finding an earlier ban of the peer expired and removing it, and none has read the clock for a ban
  of the peer before this one and not yet inserted it. The first takes the new ban away, the second
  shortens it. (The blocklist is a map: no key twice.)
\<close>

theorem ban_survives_iff:
  assumes "hm_get (pr_blocklist (bs_reputation s)) p = Some e" and "hm_wf (pr_blocklist (bs_reputation s))"
    and "bl_duration e = pr_ban_duration (bs_reputation s)" and "0 < bl_duration e"
  shows "(\<forall>s'. (ban_steps_in (bl_banned_at e) (bl_banned_at e + bl_duration e))\<^sup>*\<^sup>* s s' \<longrightarrow>
            get_ban_reason p (bs_reputation s') \<noteq> None)
     \<longleftrightarrow> (p, BP_Remove) \<notin> set (bs_threads s)
         \<and> (\<forall>reason t. (p, BP_Insert reason t) \<in> set (bs_threads s) \<longrightarrow> bl_banned_at e \<le> t)"
    (is "?keeps \<longleftrightarrow> ?safe")
proof
  let ?from = "bl_banned_at e" and ?d = "bl_duration e"
  show "?keeps" if "?safe"
  proof -
    have "ban_holds ?from ?d p s"
      using that assms(1-3) by (auto simp: ban_holds_def long_ban_def endangers_def not_less simp del: map_of_eq_Some_iff)
    then show ?thesis
      using ban_holds_run [of ?from ?d s _ p]
      by (fastforce simp: ban_holds_def long_ban_def get_ban_reason_def simp del: map_of_eq_Some_iff)
  qed
  show "?safe" if "?keeps"
  proof (rule ccontr)
    assume "\<not> ?safe"
    then obtain th where "th \<in> set (bs_threads s)" and "endangers ?from p th"
      by (fastforce simp: endangers_def not_le)
    then obtain s' where "(ban_steps_in ?from (?from + ?d))\<^sup>*\<^sup>* s s'" and "get_ban_reason p (bs_reputation s') = None"
      using endangered_ban_ends [of s p e] assms by blast
    with that show False by blast
  qed
qed

definition raced :: "nat ban_state" where
  "raced = \<lparr>bs_reputation = rep_ban (clock_all 100) 7 ''spam'' (reputation_with_config 1 10 50),
            bs_threads = [(7, BP_Remove), (8, BP_Look)]\<rparr>"

theorem ban_survives_iff_witness:
  "\<exists>s'. (ban_steps_in 100 150)\<^sup>*\<^sup>* raced s' \<and> get_ban_reason 7 (bs_reputation s') = None"
proof -
  let ?e = "\<lparr>bl_peer_id = 7 :: nat, bl_reason = ''spam'', bl_banned_at = 100, bl_duration = 50\<rparr>"
  have "hm_get (pr_blocklist (bs_reputation raced)) 7 = Some ?e" and "hm_wf (pr_blocklist (bs_reputation raced))"
    and "bl_duration ?e = pr_ban_duration (bs_reputation raced)" and "(7, BP_Remove) \<in> set (bs_threads raced)"
    by (simp_all add: raced_def rep_ban_def reputation_with_config_def clock_all_def)
  from ban_survives_iff [OF this(1-3)] this(4) show ?thesis by auto
qed

end
