(* ===== verification/Mining_Pool.thy ===== *)
theory Mining_Pool
  imports Prelude Float64
begin

text \<open>
  The mining pool (\<open>src/mining_pool.rs\<close>): work packages, miner accounts and statistics.

  \<open>submit_share\<close> calls \<open>self.miners.len()\<close> while the entry of the miner is still mutably
  borrowed from the same map. What \<open>DashMap::len\<close> does then is up to the library, whose
  documentation says that it may deadlock: it is the argument \<open>len_held\<close>, \<open>None\<close> when the call
  never returns. Elsewhere \<open>len\<close> is the number of entries.
\<close>

section \<open>Model\<close>

record work_package =
  wp_work_id :: u64
  wp_header :: bytes
  wp_target :: u64
  wp_chain_id :: u32
  wp_created_at :: u64

record miner_share =
  msh_work_id :: u64
  msh_nonce :: u64
  msh_miner_address :: bytes
  msh_submitted_at :: u64

record miner_account =
  ma_address :: bytes
  ma_total_shares :: u64
  ma_valid_shares :: u64
  ma_invalid_shares :: u64
  ma_last_activity :: instant
  ma_hash_rate :: f64

definition miner_account_new :: "instant \<Rightarrow> bytes \<Rightarrow> miner_account" where
  "miner_account_new now address =
     \<lparr>ma_address = address, ma_total_shares = 0, ma_valid_shares = 0, ma_invalid_shares = 0,
      ma_last_activity = now, ma_hash_rate = 0\<rparr>"

definition record_valid_share :: "instant \<Rightarrow> miner_account \<Rightarrow> miner_account" where
  "record_valid_share now a =
     a\<lparr>ma_total_shares := ma_total_shares a + 1, ma_valid_shares := ma_valid_shares a + 1,
       ma_last_activity := now\<rparr>"

definition record_invalid_share :: "instant \<Rightarrow> miner_account \<Rightarrow> miner_account" where
  "record_invalid_share now a =
     a\<lparr>ma_total_shares := ma_total_shares a + 1, ma_invalid_shares := ma_invalid_shares a + 1,
       ma_last_activity := now\<rparr>"

definition acceptance_rate :: "miner_account \<Rightarrow> f64" where
  "acceptance_rate a =
     (if ma_total_shares a = 0 then 0
      else f64_div (f64_of_u64 (ma_valid_shares a)) (f64_of_u64 (ma_total_shares a)))"

record pool_stats =
  po_total_work_packages :: u64
  po_total_shares :: u64
  po_valid_shares :: u64
  po_invalid_shares :: u64
  po_active_miners :: usize
  po_pool_hash_rate :: f64

record mining_pool =
  mp_work_packages :: "(u64, work_package) hmap"
  mp_miners :: "(bytes, miner_account) hmap"
  mp_stats :: pool_stats
  mp_next_work_id :: u64

definition mining_pool_new :: mining_pool where
  "mining_pool_new =
     \<lparr>mp_work_packages = [], mp_miners = [],
      mp_stats = \<lparr>po_total_work_packages = 0, po_total_shares = 0, po_valid_shares = 0,
                  po_invalid_shares = 0, po_active_miners = 0, po_pool_hash_rate = 0\<rparr>,
      mp_next_work_id = 1\<rparr>"

text \<open>\<open>now_secs\<close> is the system time in seconds.\<close>

definition distribute_work ::
  "u64 \<Rightarrow> bytes \<Rightarrow> u64 \<Rightarrow> u32 \<Rightarrow> mining_pool \<Rightarrow> work_package \<times> mining_pool" where
  "distribute_work now_secs header target chain_id m =
     (let work_id = mp_next_work_id m;
          work = \<lparr>wp_work_id = work_id, wp_header = header, wp_target = target,
                  wp_chain_id = chain_id, wp_created_at = now_secs\<rparr>
      in (work,
          m\<lparr>mp_next_work_id := mp_next_work_id m + 1,
            mp_work_packages := hm_put work_id work (mp_work_packages m),
            mp_stats := (mp_stats m)\<lparr>po_total_work_packages := po_total_work_packages (mp_stats m) + 1\<rparr>\<rparr>))"

definition submit_share ::
  "((bytes, miner_account) hmap \<Rightarrow> nat option) \<Rightarrow> instant \<Rightarrow> instant \<Rightarrow> miner_share \<Rightarrow> mining_pool
     \<Rightarrow> (bool \<times> mining_pool) option" where
  "submit_share len_held now_new now share m =
     (if \<not> hm_has (mp_work_packages m) (msh_work_id share) then Some (False, m)
      else let addr = msh_miner_address share;
               miner = record_valid_share now
                         (hm_entry addr (miner_account_new now_new addr) (mp_miners m));
               miners = hm_put addr miner (mp_miners m)
           in case len_held miners of
                None \<Rightarrow> None
              | Some n \<Rightarrow>
                  Some (True,
                        m\<lparr>mp_miners := miners,
                          mp_stats := (mp_stats m)
                            \<lparr>po_total_shares := po_total_shares (mp_stats m) + 1,
                             po_valid_shares := po_valid_shares (mp_stats m) + 1,
                             po_active_miners := n\<rparr>\<rparr>))"

definition get_miner :: "bytes \<Rightarrow> mining_pool \<Rightarrow> miner_account option" where
  "get_miner address m = hm_get (mp_miners m) address"

definition pool_get_stats :: "mining_pool \<Rightarrow> pool_stats" where
  "pool_get_stats m = mp_stats m"

text \<open>\<open>now - work.created_at\<close> is a wrapping subtraction of unsigned integers.\<close>

definition cleanup_old_work :: "u64 \<Rightarrow> u64 \<Rightarrow> mining_pool \<Rightarrow> mining_pool" where
  "cleanup_old_work now_secs max_age_secs m =
     m\<lparr>mp_work_packages := hm_retain (\<lambda>_ work. now_secs - wp_created_at work < max_age_secs) (mp_work_packages m)\<rparr>"

definition active_miner_count :: "mining_pool \<Rightarrow> usize" where
  "active_miner_count m = hm_size (mp_miners m)"

section \<open>Work packages\<close>

fun distribute_run :: "(u64 \<times> bytes \<times> u64 \<times> u32) list \<Rightarrow> mining_pool \<Rightarrow> work_package list \<times> mining_pool" where
  "distribute_run [] m = ([], m)"
| "distribute_run ((now, header, target, chain) # js) m =
     (let (w, m1) = distribute_work now header target chain m; (ws, m2) = distribute_run js m1
      in (w # ws, m2))"

lemma distribute_run_ids:
  assumes "distribute_run js m = (ws, m')"
    and "unat (mp_next_work_id m) + length js < 2 ^ 64"
  shows "map (unat \<circ> wp_work_id) ws = [unat (mp_next_work_id m)..<unat (mp_next_work_id m) + length js]
     \<and> map (\<lambda>w. (wp_created_at w, wp_header w, wp_target w, wp_chain_id w)) ws = js
     \<and> (\<forall>k. hm_get (mp_work_packages m') k =
          (case find (\<lambda>w. wp_work_id w = k) ws of None \<Rightarrow> hm_get (mp_work_packages m) k | Some w \<Rightarrow> Some w))
     \<and> po_total_work_packages (mp_stats m') = po_total_work_packages (mp_stats m) + word_of_nat (length js)"
  using assms
proof (induction js arbitrary: m ws)
  case Nil
  then show ?case by simp
next
  case (Cons j js)
  obtain now header target chain where j: "j = (now, header, target, chain)" by (cases j)
  obtain w m1 where step: "distribute_work now header target chain m = (w, m1)" by fastforce
  obtain ws1 where run: "distribute_run js m1 = (ws1, m')" and ws: "ws = w # ws1"
    using Cons.prems(1) step by (auto simp: j Let_def split: prod.splits)
  have w: "w = \<lparr>wp_work_id = mp_next_work_id m, wp_header = header, wp_target = target,
                  wp_chain_id = chain, wp_created_at = now\<rparr>"
    and m1: "mp_next_work_id m1 = mp_next_work_id m + 1"
      "mp_work_packages m1 = hm_put (mp_next_work_id m) w (mp_work_packages m)"
      "po_total_work_packages (mp_stats m1) = po_total_work_packages (mp_stats m) + 1"
    using step by (auto simp: distribute_work_def Let_def)
  have next_id: "unat (mp_next_work_id m + 1) = Suc (unat (mp_next_work_id m))"
    using Cons.prems(2) by (intro unat_Suc_no_wrap) simp
  then have next_id': "unat (1 + mp_next_work_id m) = Suc (unat (mp_next_work_id m))"
    by (simp add: add.commute)
  from next_id Cons.prems(2) have room: "unat (mp_next_work_id m1) + length js < 2 ^ 64"
    by (simp add: m1)
  note IH = Cons.IH [OF run room]
  have "find (\<lambda>w. wp_work_id w = mp_next_work_id m) ws1 = None"
  proof -
    from IH have "map (unat \<circ> wp_work_id) ws1 = [unat (mp_next_work_id m1)..<unat (mp_next_work_id m1) + length js]"
      by blast
    from arg_cong [OF this, of set]
    have "(unat \<circ> wp_work_id) ` set ws1 = {unat (mp_next_work_id m1)..<unat (mp_next_work_id m1) + length js}"
      by (simp only: set_map set_upt)
    then have "unat (mp_next_work_id m) \<notin> (unat \<circ> wp_work_id) ` set ws1" by (simp add: m1 next_id)
    then show ?thesis by (fastforce simp: find_None_iff image_iff)
  qed
  then show ?case
    using IH by (auto simp: ws w j m1 next_id next_id' hm_get_put upt_rec [of "unat (mp_next_work_id m)"]
        algebra_simps simp del: upt_Suc split: option.splits)
qed

section \<open>Shares\<close>

fun submit_run ::
  "((bytes, miner_account) hmap \<Rightarrow> nat option) \<Rightarrow> (instant \<times> miner_share) list \<Rightarrow> mining_pool
     \<Rightarrow> (bool list \<times> mining_pool) option" where
  "submit_run lh [] m = Some ([], m)"
| "submit_run lh ((now, sh) # ss) m =
     (case submit_share lh now now sh m of
        None \<Rightarrow> None
      | Some (r, m1) \<Rightarrow> map_option (\<lambda>(rs, m2). (r # rs, m2)) (submit_run lh ss m1))"

definition shares_sum :: "mining_pool \<Rightarrow> u64" where
  "shares_sum m = sum_list (map (\<lambda>(_, a). ma_total_shares a) (mp_miners m))"

definition pool_ok :: "mining_pool \<Rightarrow> bool" where
  "pool_ok m \<longleftrightarrow> hm_wf (mp_miners m)
     \<and> po_total_shares (mp_stats m) = shares_sum m
     \<and> po_valid_shares (mp_stats m) = po_total_shares (mp_stats m)
     \<and> po_active_miners (mp_stats m) = hm_size (mp_miners m)
     \<and> list_all (\<lambda>(k, a). ma_address a = k \<and> ma_valid_shares a = ma_total_shares a) (mp_miners m)"

lemma sum_list_put:
  fixes f :: "'v \<Rightarrow> 'b::comm_ring_1"
  assumes "hm_wf m"
  shows "sum_list (map (\<lambda>(_, a). f a) (hm_put k v m)) =
     sum_list (map (\<lambda>(_, a). f a) m) + f v - (case hm_get m k of None \<Rightarrow> 0 | Some w \<Rightarrow> f w)"
  using assms by (induction m) (auto simp: algebra_simps hm_get_None split: option.splits)

lemma list_all_put:
  "list_all P m \<Longrightarrow> P (k, v) \<Longrightarrow> list_all P (hm_put k v m)"
  by (induction m) auto

lemma submit_share_ok:
  assumes "pool_ok m" and "\<And>ms. lh ms = Some (hm_size ms)"
    and "submit_share lh t0 t sh m = Some (r, m')"
  shows "pool_ok m'" and "r \<longleftrightarrow> hm_has (mp_work_packages m) (msh_work_id sh)"
    and "mp_work_packages m' = mp_work_packages m"
    and "po_total_shares (mp_stats m') = po_total_shares (mp_stats m) + (if r then 1 else 0)"
proof -
  let ?addr = "msh_miner_address sh"
  let ?old = "hm_entry ?addr (miner_account_new t0 ?addr) (mp_miners m)"
  let ?ms = "hm_put ?addr (record_valid_share t ?old) (mp_miners m)"
  have old: "ma_address ?old = ?addr \<and> ma_valid_shares ?old = ma_total_shares ?old"
    using assms(1) by (auto simp: pool_ok_def hm_entry_def miner_account_new_def list_all_iff
        dest: hm_get_Some_in split: option.splits simp del: map_of_eq_Some_iff)
  have sum: "sum_list (map (\<lambda>(_, a). ma_total_shares a) ?ms) = shares_sum m + 1"
    using assms(1) by (simp add: pool_ok_def sum_list_put shares_sum_def hm_entry_def
        record_valid_share_def miner_account_new_def split: option.split)
  show "pool_ok m'"
    using assms old sum
    by (auto simp: submit_share_def Let_def pool_ok_def hm_simps shares_sum_def
        intro!: list_all_put split: if_splits) (simp_all add: record_valid_share_def)
  show "r \<longleftrightarrow> hm_has (mp_work_packages m) (msh_work_id sh)"
    and "mp_work_packages m' = mp_work_packages m"
    and "po_total_shares (mp_stats m') = po_total_shares (mp_stats m) + (if r then 1 else 0)"
    using assms(2,3) by (auto simp: submit_share_def Let_def split: if_splits)
qed

lemma submit_run_ok:
  assumes "pool_ok m" and "\<And>ms. lh ms = Some (hm_size ms)" and "submit_run lh ss m = Some (rs, m')"
  shows "pool_ok m' \<and> rs = map (\<lambda>(_, sh). hm_has (mp_work_packages m) (msh_work_id sh)) ss
     \<and> po_total_shares (mp_stats m') = po_total_shares (mp_stats m) + word_of_nat (length (filter id rs))"
  using assms(1,3)
proof (induction ss arbitrary: m rs)
  case Nil
  then show ?case by simp
next
  case (Cons s ss)
  obtain t sh where s: "s = (t, sh)" by fastforce
  obtain r m1 where step: "submit_share lh t t sh m = Some (r, m1)"
    using Cons.prems(2) by (auto simp: s split: option.splits)
  then obtain rs1 where run: "submit_run lh ss m1 = Some (rs1, m')" and rs: "rs = r # rs1"
    using Cons.prems(2) by (auto simp: s)
  note one = submit_share_ok [OF Cons.prems(1) assms(2) step]
  from Cons.IH [OF one(1) run] one(2-4) show ?case
    by (simp add: rs s)
qed

lemma submit_share_total:
  assumes "\<And>ms. lh ms = Some (hm_size ms)"
  shows "\<exists>r m'. submit_share lh t0 t sh m = Some (r, m')"
  by (auto simp: submit_share_def Let_def assms)

lemma submit_run_total:
  assumes "\<And>ms. lh ms = Some (hm_size ms)"
  shows "\<exists>rs m'. submit_run lh ss m = Some (rs, m')"
proof (induction ss arbitrary: m)
  case Nil
  then show ?case by simp
next
  case (Cons s ss)
  obtain t sh where "s = (t, sh)" by fastforce
  with Cons submit_share_total [OF assms, of t t sh m] show ?case by fastforce
qed

lemma distribute_keeps_accounts:
  "mp_miners (snd (distribute_work now h t c m)) = mp_miners m
   \<and> po_total_shares (mp_stats (snd (distribute_work now h t c m))) = po_total_shares (mp_stats m)"
  by (simp add: distribute_work_def Let_def)

section \<open>Properties\<close>

text \<open>
  C38: work packages. A new pool numbers the packages it distributes consecutively from 1, hands
  out each with the given header, target and chain, keeps every one of them under its number and
  counts them (as long as the 64-bit counter does not wrap).
\<close>

theorem work_ids_consecutive:
  assumes "distribute_run jobs mining_pool_new = (ws, m)" and "length jobs < 2 ^ 64 - 1"
  shows "map (unat \<circ> wp_work_id) ws = [1..<1 + length jobs]
     \<and> map (\<lambda>w. (wp_created_at w, wp_header w, wp_target w, wp_chain_id w)) ws = jobs
     \<and> (w \<in> set ws \<longrightarrow> hm_get (mp_work_packages m) (wp_work_id w) = Some w)
     \<and> unat (po_total_work_packages (mp_stats m)) = length jobs"
proof -
  have new: "mp_next_work_id mining_pool_new = 1" "mp_work_packages mining_pool_new = []"
    "po_total_work_packages (mp_stats mining_pool_new) = 0"
    by (simp_all add: mining_pool_new_def)
  have "unat (mp_next_work_id mining_pool_new) + length jobs < 2 ^ 64"
    using assms(2) by (simp add: new)
  note run = distribute_run_ids [OF assms(1) this, unfolded new, unfolded unat_1]
  then have "distinct (map (unat \<circ> wp_work_id) ws)" by simp
  then have "inj_on (unat \<circ> wp_work_id) (set ws)"
    by (simp only: distinct_map)
  then have inj: "inj_on wp_work_id (set ws)"
    by (rule inj_on_imageI2)
  have "hm_get (mp_work_packages m) (wp_work_id w) = Some w" if "w \<in> set ws"
  proof (cases "find (\<lambda>v. wp_work_id v = wp_work_id w) ws")
    case None
    then show ?thesis using that by (auto simp: find_None_iff)
  next
    case (Some v)
    then have "v \<in> set ws" and "wp_work_id v = wp_work_id w"
      by (auto simp: find_Some_iff)
    then have "v = w" using inj that by (auto dest: inj_onD)
    then show ?thesis using run Some by simp
  qed
  then show ?thesis
    using run assms(2) by (simp add: unat_of_nat_small)
qed

theorem work_ids_consecutive_witness:
  "map (unat \<circ> wp_work_id) (fst (distribute_run [(5, [1], 1000, 0), (6, [2], 1000, 0)] mining_pool_new)) = [1, 2]"
proof -
  obtain ws m where run: "distribute_run [(5, [1], 1000, 0), (6, [2], 1000, 0)] mining_pool_new = (ws, m)"
    by fastforce
  from work_ids_consecutive [OF run] show ?thesis
    unfolding run by (simp add: upt_rec)
qed

text \<open>
  One share, whatever \<open>len\<close> does. A share for unknown work is refused and changes nothing. A share
  for known work is accepted once \<open>len\<close> answers: the miner's account and the totals go up by one,
  nothing else changes but the count that \<open>len\<close> gave. The nonce, the time and the target play no
  part.
\<close>

lemma share_effect:
  "submit_share len_held t0 t sh m = None \<Longrightarrow> hm_has (mp_work_packages m) (msh_work_id sh)"
  "submit_share len_held t0 t sh m = Some (r, m') \<Longrightarrow> r = hm_has (mp_work_packages m) (msh_work_id sh)
     \<and> mp_work_packages m' = mp_work_packages m
     \<and> po_total_shares (mp_stats m') = po_total_shares (mp_stats m) + (if r then 1 else 0)
     \<and> po_valid_shares (mp_stats m') = po_valid_shares (mp_stats m) + (if r then 1 else 0)
     \<and> (\<forall>a. get_miner a m' = (if r \<and> a = msh_miner_address sh
           then Some (record_valid_share t (case get_miner a m of None \<Rightarrow> miner_account_new t0 a | Some acc \<Rightarrow> acc))
           else get_miner a m))"
  "submit_share len_held t0 t (sh\<lparr>msh_nonce := nonce, msh_submitted_at := time\<rparr>) m = submit_share len_held t0 t sh m"
  by (auto simp: submit_share_def Let_def get_miner_def hm_entry_def hm_simps split: if_splits option.splits)

text \<open>
  The books of the pool agree after every sequence of shares, if \<open>len\<close> answers with the number of
  accounts. Under the held entry \<open>DashMap\<close> warns that it may not, so this is what the code means to
  keep, not what it is known to do.
\<close>

lemma share_accounting:
  assumes len: "\<And>ms. len_held ms = Some (hm_size ms)" and ok: "pool_ok m"
  shows "\<exists>rs m'. submit_run len_held ss m = Some (rs, m') \<and> pool_ok m'
        \<and> rs = map (\<lambda>(_, sh). hm_has (mp_work_packages m) (msh_work_id sh)) ss
        \<and> po_total_shares (mp_stats m') = po_total_shares (mp_stats m) + word_of_nat (length (filter id rs))"
proof -
  obtain rs m' where run: "submit_run len_held ss m = Some (rs, m')"
    using submit_run_total [OF len] by blast
  from submit_run_ok [OF ok len run] show ?thesis
    by (intro exI [of _ rs] exI [of _ m']) (auto simp: run)
qed

text \<open>A pool with one work package.\<close>

definition small_pool :: mining_pool where
  "small_pool = snd (distribute_work 5 [1] 1000 0 mining_pool_new)"

text \<open>
  Cleaning up. With the clock at or after every creation time, the cleanup keeps exactly the
  packages younger than \<open>max_age_secs\<close>. A package created in the future, after the clock was set
  back by \<open>d\<close> seconds, is removed unless the limit exceeds \<open>2^64 - d\<close>: the age wraps around.
\<close>

lemma cleanup_by_age:
  assumes "distinct (map fst (mp_work_packages m))"
    and "hm_get (mp_work_packages m) k = Some w"
  shows "hm_get (mp_work_packages (cleanup_old_work now_secs max_age m)) k =
     (if (if unat (wp_created_at w) \<le> unat now_secs then unat now_secs - unat (wp_created_at w)
          else 2 ^ 64 - (unat (wp_created_at w) - unat now_secs)) < unat max_age
      then Some w else None)"
proof -
  have "unat (now_secs - wp_created_at w) =
      (if unat (wp_created_at w) \<le> unat now_secs then unat now_secs - unat (wp_created_at w)
       else 2 ^ 64 - (unat (wp_created_at w) - unat now_secs))"
    using unat_less_pow [of "wp_created_at w"] by (auto simp: unat_sub_if' not_le)
  then show ?thesis
    by (simp add: cleanup_old_work_def hm_get_retain [OF assms(1)] assms(2) word_less_nat_alt)
qed

lemma cleanup_by_age_witness:
  "hm_has (mp_work_packages (cleanup_old_work 10 60 small_pool)) 1
   \<and> \<not> hm_has (mp_work_packages (cleanup_old_work 4 60 small_pool)) 1"
proof -
  have "distinct (map fst (mp_work_packages small_pool))"
    and "hm_get (mp_work_packages small_pool) 1 =
      Some \<lparr>wp_work_id = 1, wp_header = [1], wp_target = 1000, wp_chain_id = 0, wp_created_at = 5\<rparr>"
    by (simp_all add: small_pool_def distribute_work_def mining_pool_new_def Let_def)
  from cleanup_by_age [OF this, of 10 60] cleanup_by_age [OF this, of 4 60] show ?thesis
    by simp
qed

end
