(* ===== verification/Peer_Discovery.thy ===== *)
theory Peer_Discovery
  imports Errors "HOL-Library.List_Lexorder" "HOL-Library.Multiset"
begin

text \<open>
  Peer discovery (\<open>src/discovery.rs\<close>): the table of pending Kademlia queries and the handling of
  their results. \<open>QueryId\<close>, \<open>PeerId\<close>, \<open>Multiaddr\<close> and the error type of \<open>libp2p::kad\<close> are type
  variables; \<open>show_query\<close> and \<open>show_error\<close> are their \<open>Debug\<close> texts and \<open>to_bytes\<close> is
  \<open>PeerId::to_bytes\<close>. Byte strings are compared lexicographically, as Rust compares \<open>Vec<u8>\<close>. A
  set of providers is the list in which it is iterated.
\<close>

section \<open>Model\<close>

datatype 'p discovery_query =
    DQ_Bootstrap
  | DQ_FindPeer 'p
  | DQ_GetProviders bytes

text \<open>The results of \<open>libp2p\<close> that the code looks into; \<open>QR_Other\<close> is any other kind.\<close>

datatype 'p get_providers_ok =
    FoundProviders "'p list"
  | FinishedWithNoAdditionalRecord "'p list"

datatype ('p, 'e) query_result =
    QR_Bootstrap "'e + u32"
  | QR_GetClosestPeers "'e + 'p list"
  | QR_GetProviders "'e + 'p get_providers_ok"
  | QR_Other

datatype 'p discovery_result =
    DR_Bootstrap usize
  | DR_FindPeer 'p "'p list"
  | DR_GetProviders bytes "'p list"

record ('q, 'p, 'a) peer_discovery =
  pd_pending_queries :: "('q, 'p discovery_query) hmap"
  pd_bootstrap_peers :: "('p \<times> 'a) list"
  pd_last_bootstrap :: "instant option"
  pd_bootstrap_interval :: u64

definition discovery_new :: "('p \<times> 'a) list \<Rightarrow> ('q, 'p, 'a) peer_discovery" where
  "discovery_new bootstrap_peers =
     \<lparr>pd_pending_queries = [], pd_bootstrap_peers = bootstrap_peers, pd_last_bootstrap = None,
      pd_bootstrap_interval = 300\<rparr>"

definition add_bootstrap_peer :: "'p \<Rightarrow> 'a \<Rightarrow> ('q, 'p, 'a) peer_discovery \<Rightarrow> ('q, 'p, 'a) peer_discovery" where
  "add_bootstrap_peer peer_id address d =
     d\<lparr>pd_bootstrap_peers := pd_bootstrap_peers d @ [(peer_id, address)]\<rparr>"

definition start_bootstrap :: "instant \<Rightarrow> 'q \<Rightarrow> ('q, 'p, 'a) peer_discovery \<Rightarrow> ('q, 'p, 'a) peer_discovery" where
  "start_bootstrap now query_id d =
     d\<lparr>pd_pending_queries := hm_put query_id DQ_Bootstrap (pd_pending_queries d),
       pd_last_bootstrap := Some now\<rparr>"

definition start_find_peer :: "'q \<Rightarrow> 'p \<Rightarrow> ('q, 'p, 'a) peer_discovery \<Rightarrow> ('q, 'p, 'a) peer_discovery" where
  "start_find_peer query_id peer_id d =
     d\<lparr>pd_pending_queries := hm_put query_id (DQ_FindPeer peer_id) (pd_pending_queries d)\<rparr>"

definition start_get_providers :: "'q \<Rightarrow> bytes \<Rightarrow> ('q, 'p, 'a) peer_discovery \<Rightarrow> ('q, 'p, 'a) peer_discovery" where
  "start_get_providers query_id key d =
     d\<lparr>pd_pending_queries := hm_put query_id (DQ_GetProviders key) (pd_pending_queries d)\<rparr>"

definition sorted_providers :: "('p \<Rightarrow> bytes) \<Rightarrow> 'p get_providers_ok \<Rightarrow> 'p list" where
  "sorted_providers to_bytes result =
     remdups_adj (sort_key to_bytes
       (case result of
          FoundProviders provider_set \<Rightarrow> provider_set
        | FinishedWithNoAdditionalRecord closest_peers \<Rightarrow> closest_peers))"

definition answer_query ::
  "('e \<Rightarrow> string) \<Rightarrow> ('p \<Rightarrow> bytes) \<Rightarrow> 'p discovery_query \<Rightarrow> ('p, 'e) query_result
     \<Rightarrow> network_error + 'p discovery_result" where
  "answer_query show_error to_bytes query result =
     (case (query, result) of
        (DQ_Bootstrap, QR_Bootstrap (Inr num_remaining)) \<Rightarrow> Inr (DR_Bootstrap (unat num_remaining))
      | (DQ_Bootstrap, QR_Bootstrap (Inl e)) \<Rightarrow> Inl (Discovery (''Bootstrap failed: '' @ show_error e))
      | (DQ_FindPeer target, QR_GetClosestPeers (Inr peers)) \<Rightarrow> Inr (DR_FindPeer target peers)
      | (DQ_FindPeer target, QR_GetClosestPeers (Inl e)) \<Rightarrow> Inl (Discovery (''Find peer failed: '' @ show_error e))
      | (DQ_GetProviders key, QR_GetProviders (Inr r)) \<Rightarrow>
          Inr (DR_GetProviders key (sorted_providers to_bytes r))
      | (DQ_GetProviders key, QR_GetProviders (Inl e)) \<Rightarrow> Inl (Discovery (''Get providers failed: '' @ show_error e))
      | _ \<Rightarrow> Inl (Discovery ''Unexpected query result''))"

definition handle_query_result ::
  "('q \<Rightarrow> string) \<Rightarrow> ('e \<Rightarrow> string) \<Rightarrow> ('p \<Rightarrow> bytes) \<Rightarrow> 'q \<Rightarrow> ('p, 'e) query_result
     \<Rightarrow> ('q, 'p, 'a) peer_discovery
     \<Rightarrow> (network_error + 'p discovery_result) \<times> ('q, 'p, 'a) peer_discovery" where
  "handle_query_result show_query show_error to_bytes query_id result d =
     (case hm_get (pd_pending_queries d) query_id of
        None \<Rightarrow> (Inl (Discovery (''Unknown query ID: '' @ show_query query_id)), d)
      | Some query \<Rightarrow>
          (answer_query show_error to_bytes query result,
           d\<lparr>pd_pending_queries := hm_del query_id (pd_pending_queries d)\<rparr>))"

definition needs_bootstrap :: "instant \<Rightarrow> ('q, 'p, 'a) peer_discovery \<Rightarrow> bool" where
  "needs_bootstrap now d =
     (case pd_last_bootstrap d of
        None \<Rightarrow> True
      | Some t \<Rightarrow> unat (pd_bootstrap_interval d) \<le> as_secs (duration_since now t))"

definition pending_queries_count :: "('q, 'p, 'a) peer_discovery \<Rightarrow> usize" where
  "pending_queries_count d = hm_size (pd_pending_queries d)"

section \<open>Lemmas\<close>

text \<open>The kinds of result that fit a query.\<close>

fun fits :: "'p discovery_query \<Rightarrow> ('p, 'e) query_result \<Rightarrow> bool" where
  "fits DQ_Bootstrap (QR_Bootstrap _) \<longleftrightarrow> True"
| "fits (DQ_FindPeer _) (QR_GetClosestPeers _) \<longleftrightarrow> True"
| "fits (DQ_GetProviders _) (QR_GetProviders _) \<longleftrightarrow> True"
| "fits _ _ \<longleftrightarrow> False"

fun_cases fits_cases: "fits q r"

lemma answer_unfit: "\<not> fits q r \<Longrightarrow> answer_query se tb q r = Inl (Discovery ''Unexpected query result'')"
  by (cases q; cases r) (simp_all add: answer_query_def)

lemma sorted_distinct_adj:
  fixes xs :: "'a::linorder list"
  shows "sorted xs \<Longrightarrow> distinct_adj xs \<Longrightarrow> sorted_wrt (<) xs"
  by (induction xs rule: induct_list012) (auto simp: less_le intro: order.trans)

lemma strict_sorted_remdups_adj:
  assumes "inj f" and "sorted (map f xs)"
  shows "sorted_wrt (<) (map f (remdups_adj xs))"
proof -
  have eq: "map f (remdups_adj xs) = remdups_adj (map f xs)"
    by (rule remdups_adj_map_injective [OF assms(1), symmetric])
  show ?thesis
    unfolding eq using assms(2) by (intro sorted_distinct_adj) simp_all
qed

section \<open>Properties\<close>

text \<open>
  C35: deterministic provider lists. Whatever the order in which the providers (or, failing them,
  the closest peers) arrive and however often each is repeated, the answer is the same: the list of
  these peers, each once, in strictly ascending order of their bytes. Needed of \<open>PeerId::to_bytes\<close>
  is only that it is injective.
\<close>

theorem providers_deterministic:
  assumes "inj to_bytes"
  shows "(let out = sorted_providers to_bytes (FoundProviders ps)
          in set out = set ps \<and> distinct out \<and> sorted_wrt (\<lambda>a b. to_bytes a < to_bytes b) out)
     \<and> (set qs = set ps \<longrightarrow>
          sorted_providers to_bytes (FoundProviders qs) = sorted_providers to_bytes (FoundProviders ps)
        \<and> sorted_providers to_bytes (FinishedWithNoAdditionalRecord qs)
            = sorted_providers to_bytes (FoundProviders ps))"
proof -
  let ?out = "\<lambda>xs. sorted_providers to_bytes (FoundProviders xs)"
  have set_out: "set (?out xs) = set xs" for xs
    by (simp add: sorted_providers_def)
  have strict: "sorted_wrt (<) (map to_bytes (?out xs))" for xs
    unfolding sorted_providers_def
    by (rule strict_sorted_remdups_adj [OF assms]) simp
  have dist: "distinct (?out xs)" for xs
    using strict [of xs] by (simp add: strict_sorted_iff distinct_map)
  have "?out qs = ?out ps" if "set qs = set ps"
  proof -
    have "map to_bytes (?out qs) = map to_bytes (?out ps)"
      by (rule strict_sorted_equal [OF strict strict]) (simp add: set_out that)
    then show ?thesis using assms by (simp add: inj_map_eq_map)
  qed
  then show ?thesis
    using strict [of ps] by (simp add: set_out dist sorted_wrt_map Let_def) (simp add: sorted_providers_def)
qed

theorem providers_deterministic_witness:
  "sorted_providers (\<lambda>p. p) (FoundProviders [[2], [1, 7], [2], [1]])
     = sorted_providers (\<lambda>p. p) (FoundProviders [[1], [2], [1, 7 :: u8]])"
proof -
  have "set [[2], [1, 7], [2], [1]] = set [[1], [2], [1, 7 :: u8]]" by auto
  then show ?thesis
    using providers_deterministic [of "\<lambda>p :: bytes. p" "[[1], [2], [1, 7]]" "[[2], [1, 7], [2], [1]]"]
    by (simp add: inj_def)
qed

text \<open>
  C34: every query is answered once. A result for a pending query takes exactly that query out of
  the table, whether it is a success, a failure or of the wrong kind (which is always an error);
  a second result for it, like one for a query never started, is an error that changes nothing.
\<close>

theorem query_answered_once:
  assumes "distinct (map fst (pd_pending_queries d))"
    and "hm_get (pd_pending_queries d) q = Some query"
    and "handle_query_result sq se tb q result d = (r, d')"
  shows "hm_get (pd_pending_queries d') p = (if p = q then None else hm_get (pd_pending_queries d) p)
     \<and> Suc (pending_queries_count d') = pending_queries_count d
     \<and> r = answer_query se tb query result
     \<and> (\<not> fits query result \<longrightarrow> r = Inl (Discovery ''Unexpected query result''))
     \<and> handle_query_result sq se tb q again d' = (Inl (Discovery (''Unknown query ID: '' @ sq q)), d')"
proof -
  have r: "r = answer_query se tb query result"
    and d': "d' = d\<lparr>pd_pending_queries := hm_del q (pd_pending_queries d)\<rparr>"
    using assms(2,3) by (simp_all add: handle_query_result_def)
  have "0 < hm_size (pd_pending_queries d)"
    using assms(2) by (cases "pd_pending_queries d") auto
  then show ?thesis
    using assms(1,2)
    by (simp add: r d' hm_simps pending_queries_count_def answer_unfit handle_query_result_def)
qed

theorem query_answered_once_witness:
  "pending_queries_count (snd (handle_query_result show_nat (\<lambda>e. e) (\<lambda>p. p) 3 (QR_Bootstrap (Inr 4))
     (start_bootstrap 0 3 (discovery_new [] :: (nat, bytes, unit) peer_discovery)))) = 0"
proof -
  let ?d = "start_bootstrap 0 3 (discovery_new []) :: (nat, bytes, unit) peer_discovery"
  have "distinct (map fst (pd_pending_queries ?d))"
    and "hm_get (pd_pending_queries ?d) 3 = Some DQ_Bootstrap"
    by (simp_all add: start_bootstrap_def discovery_new_def)
  from query_answered_once [OF this prod.collapse [symmetric], of show_nat "\<lambda>e. e" "\<lambda>p. p" "QR_Bootstrap (Inr 4)"]
  show ?thesis
    by (simp add: pending_queries_count_def start_bootstrap_def discovery_new_def)
qed

end
