(* ===== verification/State_Sync.thy ===== *)
theory State_Sync
  imports Errors Float64
begin

text \<open>
  State synchronisation (\<open>src/sync.rs\<close>): the state machine of \<open>StateSync\<close>, its pending requests
  with their retries, and every handler.

  \<open>Snapshot\<close>, \<open>Transaction\<close> and \<open>TransactionDigest\<close> come from \<open>silver-core\<close> and \<open>PeerId\<close> from
  \<open>libp2p\<close>: they are type variables, and \<open>sequence_number\<close>, \<open>transactions\<close> (the digests listed in
  a snapshot) and \<open>digest\<close> are arguments. Sequence numbers are 64-bit words and wrap as in a
  release build. Clock readings are arguments; \<open>renewed\<close> gives, for each request that is retried,
  the reading of the clock that renews it.
\<close>

section \<open>State\<close>

datatype sync_state =
    SS_Idle
  | SS_DownloadingSnapshot u64 instant
  | SS_VerifyingSnapshot u64
  | SS_DownloadingTransactions u64 u64 instant
  | SS_ApplyingTransactions usize
  | SS_Synced u64

record 'p snapshot_request =
  sr_sequence :: u64
  sr_peer_id :: 'p
  sr_requested_at :: instant
  sr_retries :: u32

record 'p transaction_request =
  tr_id :: u64
  tr_from_sequence :: u64
  tr_to_sequence :: u64
  tr_peer_id :: 'p
  tr_requested_at :: instant
  tr_retries :: u32

record ('s, 'p) pending_snapshot =
  psn_snapshot :: 's
  psn_peer_id :: 'p
  psn_received_at :: instant

record ('p, 's, 'd, 't) state_sync =
  sy_state :: sync_state
  sy_pending_snapshot_requests :: "(u64, 'p snapshot_request) hmap"
  sy_pending_transaction_requests :: "(u64, 'p transaction_request) hmap"
  sy_pending_snapshots :: "(u64, ('s, 'p) pending_snapshot) hmap"
  sy_downloaded_transactions :: "('d, 't) hmap"
  sy_timeout :: duration
  sy_max_concurrent_requests :: usize
  sy_next_request_id :: u64

datatype ('p, 's, 't) sync_action =
    SA_None
  | SA_VerifySnapshot 's
  | SA_ApplySnapshot 's
  | SA_ApplyTransactions "'t list"
  | SA_RetrySnapshotRequest u64 'p
  | SA_RetryTransactionRequest u64 u64 'p

definition sync_with_config :: "duration \<Rightarrow> usize \<Rightarrow> ('p, 's, 'd, 't) state_sync" where
  "sync_with_config timeout max_concurrent_requests =
     \<lparr>sy_state = SS_Idle, sy_pending_snapshot_requests = [], sy_pending_transaction_requests = [],
      sy_pending_snapshots = [], sy_downloaded_transactions = [], sy_timeout = timeout,
      sy_max_concurrent_requests = max_concurrent_requests, sy_next_request_id = 0\<rparr>"

definition sync_new :: "('p, 's, 'd, 't) state_sync" where
  "sync_new =
     \<lparr>sy_state = SS_Idle, sy_pending_snapshot_requests = [], sy_pending_transaction_requests = [],
      sy_pending_snapshots = [], sy_downloaded_transactions = [], sy_timeout = duration_from_secs 30,
      sy_max_concurrent_requests = 10, sy_next_request_id = 0\<rparr>"

section \<open>Operations\<close>

definition is_syncing :: "('p, 's, 'd, 't) state_sync \<Rightarrow> bool" where
  "is_syncing s =
     (case sy_state s of SS_Idle \<Rightarrow> False | SS_Synced _ \<Rightarrow> False | _ \<Rightarrow> True)"

definition request_snapshot ::
  "instant \<Rightarrow> u64 \<Rightarrow> 'p \<Rightarrow> ('p, 's, 'd, 't) state_sync \<Rightarrow> (network_error + unit) \<times> ('p, 's, 'd, 't) state_sync"
  where
  "request_snapshot now sequence peer_id s =
     (if sy_max_concurrent_requests s \<le> hm_size (sy_pending_snapshot_requests s)
      then (Inl (OtherError ''Too many concurrent requests''), s)
      else (Inr (),
            s\<lparr>sy_pending_snapshot_requests := hm_put sequence
                \<lparr>sr_sequence = sequence, sr_peer_id = peer_id, sr_requested_at = now, sr_retries = 0\<rparr>
                (sy_pending_snapshot_requests s)\<rparr>))"

definition start_snapshot_download ::
  "instant \<Rightarrow> instant \<Rightarrow> u64 \<Rightarrow> 'p \<Rightarrow> ('p, 's, 'd, 't) state_sync
     \<Rightarrow> (network_error + unit) \<times> ('p, 's, 'd, 't) state_sync" where
  "start_snapshot_download started_at now target_sequence peer_id s =
     (if is_syncing s then (Inl (OtherError ''Already syncing''), s)
      else request_snapshot now target_sequence peer_id
             (s\<lparr>sy_state := SS_DownloadingSnapshot target_sequence started_at\<rparr>))"

definition handle_snapshot ::
  "('s \<Rightarrow> u64) \<Rightarrow> instant \<Rightarrow> 's \<Rightarrow> 'p \<Rightarrow> ('p, 's, 'd, 't) state_sync
     \<Rightarrow> (network_error + ('p, 's, 't) sync_action) \<times> ('p, 's, 'd, 't) state_sync" where
  "handle_snapshot sequence_number now snapshot peer_id s =
     (let sequence = sequence_number snapshot
      in (Inr (SA_VerifySnapshot snapshot),
          s\<lparr>sy_pending_snapshot_requests := hm_del sequence (sy_pending_snapshot_requests s),
            sy_pending_snapshots := hm_put sequence
              \<lparr>psn_snapshot = snapshot, psn_peer_id = peer_id, psn_received_at = now\<rparr>
              (sy_pending_snapshots s),
            sy_state := SS_VerifyingSnapshot sequence\<rparr>))"

definition missing_transactions ::
  "('s \<Rightarrow> 'd list) \<Rightarrow> 's \<Rightarrow> ('p, 's, 'd, 't) state_sync \<Rightarrow> 'd list" where
  "missing_transactions transactions snapshot s =
     [d \<leftarrow> transactions snapshot. \<not> hm_has (sy_downloaded_transactions s) d]"

definition complete_snapshot_verification ::
  "('s \<Rightarrow> 'd list) \<Rightarrow> instant \<Rightarrow> u64 \<Rightarrow> bool \<Rightarrow> ('p, 's, 'd, 't) state_sync
     \<Rightarrow> (network_error + ('p, 's, 't) sync_action) \<times> ('p, 's, 'd, 't) state_sync" where
  "complete_snapshot_verification transactions now sequence valid s =
     (if \<not> valid
      then (Inr SA_None,
            s\<lparr>sy_pending_snapshots := hm_del sequence (sy_pending_snapshots s), sy_state := SS_Idle\<rparr>)
      else case hm_get (sy_pending_snapshots s) sequence of
             None \<Rightarrow> (Inl (OtherError (''Snapshot '' @ show_nat (unat sequence) @ '' not found'')), s)
           | Some pending \<Rightarrow>
               (let s1 = s\<lparr>sy_pending_snapshots := hm_del sequence (sy_pending_snapshots s)\<rparr>;
                    snapshot = psn_snapshot pending
                in (Inr (SA_ApplySnapshot snapshot),
                    if missing_transactions transactions snapshot s1 \<noteq> []
                    then s1\<lparr>sy_state := SS_DownloadingTransactions sequence sequence now\<rparr>
                    else s1\<lparr>sy_state := SS_Synced sequence\<rparr>)))"

definition request_transactions ::
  "instant \<Rightarrow> u64 \<Rightarrow> u64 \<Rightarrow> 'p \<Rightarrow> ('p, 's, 'd, 't) state_sync
     \<Rightarrow> (network_error + unit) \<times> ('p, 's, 'd, 't) state_sync" where
  "request_transactions now from_sequence to_sequence peer_id s =
     (if sy_max_concurrent_requests s \<le> hm_size (sy_pending_transaction_requests s)
      then (Inl (OtherError ''Too many concurrent requests''), s)
      else let request_id = sy_next_request_id s
           in (Inr (),
               s\<lparr>sy_next_request_id := request_id + 1,
                 sy_pending_transaction_requests := hm_put request_id
                   \<lparr>tr_id = request_id, tr_from_sequence = from_sequence, tr_to_sequence = to_sequence,
                    tr_peer_id = peer_id, tr_requested_at = now, tr_retries = 0\<rparr>
                   (sy_pending_transaction_requests s)\<rparr>))"

definition start_transaction_download ::
  "instant \<Rightarrow> instant \<Rightarrow> u64 \<Rightarrow> u64 \<Rightarrow> 'p \<Rightarrow> ('p, 's, 'd, 't) state_sync
     \<Rightarrow> (network_error + unit) \<times> ('p, 's, 'd, 't) state_sync" where
  "start_transaction_download started_at now from_sequence to_sequence peer_id s =
     request_transactions now from_sequence to_sequence peer_id
       (s\<lparr>sy_state := SS_DownloadingTransactions from_sequence to_sequence started_at\<rparr>)"

definition store_transactions :: "('t \<Rightarrow> 'd) \<Rightarrow> 't list \<Rightarrow> ('d, 't) hmap \<Rightarrow> ('d, 't) hmap" where
  "store_transactions digest txs m = foldl (\<lambda>m tx. hm_put (digest tx) tx m) m txs"

definition handle_transactions ::
  "('t \<Rightarrow> 'd) \<Rightarrow> 't list \<Rightarrow> 'p \<Rightarrow> ('p, 's, 'd, 't) state_sync
     \<Rightarrow> (network_error + ('p, 's, 't) sync_action) \<times> ('p, 's, 'd, 't) state_sync" where
  "handle_transactions digest txs peer_id s =
     (let s1 = s\<lparr>sy_downloaded_transactions := store_transactions digest txs (sy_downloaded_transactions s)\<rparr>
      in case sy_state s1 of
           SS_DownloadingTransactions from_sequence to_sequence _ \<Rightarrow>
             (if unat (to_sequence - from_sequence + 1) \<le> hm_size (sy_downloaded_transactions s1)
              then (Inr (SA_ApplyTransactions (map snd (sy_downloaded_transactions s1))),
                    s1\<lparr>sy_state := SS_ApplyingTransactions (hm_size (sy_downloaded_transactions s1)),
                       sy_downloaded_transactions := []\<rparr>)
              else (Inr SA_None, s1))
         | _ \<Rightarrow> (Inr SA_None, s1))"

definition complete_transaction_application ::
  "u64 \<Rightarrow> ('p, 's, 'd, 't) state_sync \<Rightarrow> (network_error + unit) \<times> ('p, 's, 'd, 't) state_sync" where
  "complete_transaction_application sequence s = (Inr (), s\<lparr>sy_state := SS_Synced sequence\<rparr>)"

text \<open>One timed-out snapshot request: retried with a new time, or given up after three retries.\<close>

definition retry_snapshot ::
  "(u64 \<Rightarrow> instant) \<Rightarrow> ('p, 's, 't) sync_action list \<times> ('p, 's, 'd, 't) state_sync \<Rightarrow> u64
     \<Rightarrow> ('p, 's, 't) sync_action list \<times> ('p, 's, 'd, 't) state_sync" where
  "retry_snapshot renewed acc sequence =
     (let (actions, s) = acc
      in case hm_get (sy_pending_snapshot_requests s) sequence of
           None \<Rightarrow> (actions, s)
         | Some request \<Rightarrow>
             let rest = hm_del sequence (sy_pending_snapshot_requests s)
             in if sr_retries request < 3
                then (actions @ [SA_RetrySnapshotRequest sequence (sr_peer_id request)],
                      s\<lparr>sy_pending_snapshot_requests := hm_put sequence
                          (request\<lparr>sr_retries := sr_retries request + 1, sr_requested_at := renewed sequence\<rparr>)
                          rest\<rparr>)
                else (actions, s\<lparr>sy_pending_snapshot_requests := rest, sy_state := SS_Idle\<rparr>))"

definition retry_transactions ::
  "(u64 \<Rightarrow> instant) \<Rightarrow> ('p, 's, 't) sync_action list \<times> ('p, 's, 'd, 't) state_sync \<Rightarrow> u64
     \<Rightarrow> ('p, 's, 't) sync_action list \<times> ('p, 's, 'd, 't) state_sync" where
  "retry_transactions renewed acc request_id =
     (let (actions, s) = acc
      in case hm_get (sy_pending_transaction_requests s) request_id of
           None \<Rightarrow> (actions, s)
         | Some request \<Rightarrow>
             let rest = hm_del request_id (sy_pending_transaction_requests s)
             in if tr_retries request < 3
                then (actions @ [SA_RetryTransactionRequest (tr_from_sequence request)
                                   (tr_to_sequence request) (tr_peer_id request)],
                      s\<lparr>sy_pending_transaction_requests := hm_put request_id
                          (request\<lparr>tr_retries := tr_retries request + 1, tr_requested_at := renewed request_id\<rparr>)
                          rest\<rparr>)
                else (actions, s\<lparr>sy_pending_transaction_requests := rest, sy_state := SS_Idle\<rparr>))"

definition handle_timeouts ::
  "instant \<Rightarrow> (u64 \<Rightarrow> instant) \<Rightarrow> (u64 \<Rightarrow> instant) \<Rightarrow> ('p, 's, 'd, 't) state_sync
     \<Rightarrow> ('p, 's, 't) sync_action list \<times> ('p, 's, 'd, 't) state_sync" where
  "handle_timeouts now renewed_snapshot renewed_transaction s =
     (let timed_out_snapshots =
            [k. (k, r) \<leftarrow> sy_pending_snapshot_requests s,
                sy_timeout s < duration_since now (sr_requested_at r)];
          (actions, s1) = foldl (retry_snapshot renewed_snapshot) ([], s) timed_out_snapshots;
          timed_out_transactions =
            [k. (k, r) \<leftarrow> sy_pending_transaction_requests s1,
                sy_timeout s1 < duration_since now (tr_requested_at r)]
      in foldl (retry_transactions renewed_transaction) (actions, s1) timed_out_transactions)"

record sync_progress =
  sp_state :: string
  sp_progress :: f64
  sp_pending_requests :: usize

text \<open>
  Dividing by an expected count of zero gives infinity or NaN, and \<open>min(1.0)\<close> turns both into 1.
\<close>

definition download_progress :: "nat \<Rightarrow> u64 \<Rightarrow> f64" where
  "download_progress downloaded expected =
     (if expected = 0 then 1 else min (f64_div (f64_of_nat downloaded) (f64_of_u64 expected)) 1)"

definition get_progress :: "('p, 's, 'd, 't) state_sync \<Rightarrow> sync_progress" where
  "get_progress s =
     (case sy_state s of
        SS_Idle \<Rightarrow> \<lparr>sp_state = ''idle'', sp_progress = 0, sp_pending_requests = 0\<rparr>
      | SS_DownloadingSnapshot _ _ \<Rightarrow>
          \<lparr>sp_state = ''downloading_snapshot'', sp_progress = 1 / 2,
           sp_pending_requests = hm_size (sy_pending_snapshot_requests s)\<rparr>
      | SS_VerifyingSnapshot _ \<Rightarrow>
          \<lparr>sp_state = ''verifying_snapshot'', sp_progress = 3 / 4, sp_pending_requests = 0\<rparr>
      | SS_DownloadingTransactions from_sequence to_sequence _ \<Rightarrow>
          \<lparr>sp_state = ''downloading_transactions'',
           sp_progress = download_progress (hm_size (sy_downloaded_transactions s))
                           (to_sequence - from_sequence + 1),
           sp_pending_requests = hm_size (sy_pending_transaction_requests s)\<rparr>
      | SS_ApplyingTransactions _ \<Rightarrow>
          \<lparr>sp_state = ''applying_transactions'', sp_progress = rnd64 (95 / 100), sp_pending_requests = 0\<rparr>
      | SS_Synced sequence \<Rightarrow>
          \<lparr>sp_state = ''synced (sequence: '' @ show_nat (unat sequence) @ '')'', sp_progress = 1,
           sp_pending_requests = 0\<rparr>)"

definition sync_reset :: "('p, 's, 'd, 't) state_sync \<Rightarrow> ('p, 's, 'd, 't) state_sync" where
  "sync_reset s =
     s\<lparr>sy_state := SS_Idle, sy_pending_snapshot_requests := [], sy_pending_transaction_requests := [],
       sy_pending_snapshots := [], sy_downloaded_transactions := []\<rparr>"

section \<open>Sweeping a table of requests\<close>

text \<open>
  The two loops of \<open>handle_timeouts\<close> treat their tables alike: a request is renewed up to three
  times, then dropped, and dropping one makes the machine idle.
\<close>

locale retry_table =
  fixes reqs :: "'s \<Rightarrow> (u64, 'r) hmap"
    and retries :: "'r \<Rightarrow> u32" and requested :: "'r \<Rightarrow> instant"
    and renew :: "instant \<Rightarrow> 'r \<Rightarrow> 'r"
    and mode :: "'s \<Rightarrow> sync_state" and frame :: "'s \<Rightarrow> 'f"
    and retry :: "(u64 \<Rightarrow> instant) \<Rightarrow> 'a list \<times> 's \<Rightarrow> u64 \<Rightarrow> 'a list \<times> 's"
  assumes retries_renew: "retries (renew t r) = retries r + 1"
    and requested_renew: "requested (renew t r) = t"
    and retry_absent: "hm_get (reqs s) k = None \<Longrightarrow> retry ren (as, s) k = (as, s)"
    and retry_again: "hm_get (reqs s) k = Some r \<Longrightarrow> retries r < 3 \<Longrightarrow>
          \<exists>a s'. retry ren (as, s) k = (as @ [a], s') \<and> reqs s' = hm_put k (renew (ren k) r) (hm_del k (reqs s))
            \<and> mode s' = mode s \<and> frame s' = frame s"
    and retry_stop: "hm_get (reqs s) k = Some r \<Longrightarrow> \<not> retries r < 3 \<Longrightarrow>
          \<exists>s'. retry ren (as, s) k = (as, s') \<and> reqs s' = hm_del k (reqs s)
            \<and> mode s' = SS_Idle \<and> frame s' = frame s"
begin

definition after :: "(u64 \<Rightarrow> instant) \<Rightarrow> u64 \<Rightarrow> 'r \<Rightarrow> 'r option" where
  "after ren k r = (if retries r < 3 then Some (renew (ren k) r) else None)"

definition budget :: "(u64, 'r) hmap \<Rightarrow> nat" where
  "budget m = hm_sum (\<lambda>r. 3 - unat (retries r)) m"

lemma retries_again: "retries r < 3 \<Longrightarrow> unat (retries r + 1) = Suc (unat (retries r))"
  by (intro unat_Suc_no_wrap) (simp add: word_less_nat_alt)

lemma retry_step:
  assumes "hm_wf (reqs s)" and "retry ren (as, s) k = (as', s')"
  shows "hm_wf (reqs s')" and "frame s' = frame s"
    and "hm_get (reqs s') j = (if j = k then Option.bind (hm_get (reqs s) k) (after ren k) else hm_get (reqs s) j)"
    and "mode s' = (if \<exists>r. hm_get (reqs s) k = Some r \<and> \<not> retries r < 3 then SS_Idle else mode s)"
    and "length as' + budget (reqs s') = length as + budget (reqs s)"
    and "hm_size (reqs s') \<le> hm_size (reqs s)"
proof -
  have "hm_wf (reqs s') \<and> frame s' = frame s
    \<and> hm_get (reqs s') j = (if j = k then Option.bind (hm_get (reqs s) k) (after ren k) else hm_get (reqs s) j)
    \<and> mode s' = (if \<exists>r. hm_get (reqs s) k = Some r \<and> \<not> retries r < 3 then SS_Idle else mode s)
    \<and> length as' + budget (reqs s') = length as + budget (reqs s)
    \<and> hm_size (reqs s') \<le> hm_size (reqs s)"
  proof (cases "hm_get (reqs s) k")
    case None
    then show ?thesis using assms retry_absent [OF None, of ren as] by auto
  next
    case (Some r)
    have pos: "0 < hm_size (reqs s)"
      using Some by (cases "reqs s") auto
    note del = hm_sum_del [OF assms(1) Some, of "\<lambda>r. 3 - unat (retries r)"]
    show ?thesis
    proof (cases "retries r < 3")
      case True
      then have less: "unat (retries r) < 3" by (simp add: word_less_nat_alt)
      from retry_again [OF Some True, of ren as] assms(2) obtain a where
        "as' = as @ [a]" "reqs s' = hm_put k (renew (ren k) r) (hm_del k (reqs s))"
        "mode s' = mode s" "frame s' = frame s" by auto
      then show ?thesis
        using assms(1) Some True del less pos hm.replace_count [OF assms(1) Some pos]
        by (auto simp: hm_simps after_def budget_def hm_sum_put_new retries_renew retries_again)
    next
      case False
      then have "\<not> unat (retries r) < 3" by (simp add: word_less_nat_alt)
      then show ?thesis
        using retry_stop [OF Some False, of ren as] assms Some False del
        by (auto simp: hm_simps after_def budget_def)
    qed
  qed
  then show "hm_wf (reqs s')" and "frame s' = frame s"
    and "hm_get (reqs s') j = (if j = k then Option.bind (hm_get (reqs s) k) (after ren k) else hm_get (reqs s) j)"
    and "mode s' = (if \<exists>r. hm_get (reqs s) k = Some r \<and> \<not> retries r < 3 then SS_Idle else mode s)"
    and "length as' + budget (reqs s') = length as + budget (reqs s)"
    and "hm_size (reqs s') \<le> hm_size (reqs s)"
    by blast+
qed

lemma sweep:
  assumes "hm_wf (reqs s)" and "foldl (retry ren) (as, s) ks = (as', s')" and "distinct ks"
  shows "hm_wf (reqs s') \<and> frame s' = frame s
    \<and> (\<forall>j. hm_get (reqs s') j =
         (if j \<in> set ks then Option.bind (hm_get (reqs s) j) (after ren j) else hm_get (reqs s) j))
    \<and> mode s' = (if \<exists>k\<in>set ks. \<exists>r. hm_get (reqs s) k = Some r \<and> \<not> retries r < 3 then SS_Idle else mode s)
    \<and> length as' + budget (reqs s') = length as + budget (reqs s)
    \<and> hm_size (reqs s') \<le> hm_size (reqs s)"
  using assms
proof (induction ks arbitrary: s as)
  case Nil
  then show ?case by simp
next
  case (Cons k ks)
  obtain as1 s1 where step: "retry ren (as, s) k = (as1, s1)" by fastforce
  have run: "foldl (retry ren) (as1, s1) ks = (as', s')"
    using Cons.prems(2) step by simp
  note one = retry_step [OF Cons.prems(1) step]
  have dist: "distinct ks" and k: "k \<notin> set ks" using Cons.prems(3) by simp_all
  note rest = Cons.IH [OF one(1) run dist]
  have same: "hm_get (reqs s1) j = hm_get (reqs s) j" if "j \<in> set ks" for j
    using one(3) [of j] that k by auto
  have gets: "\<forall>j. hm_get (reqs s') j =
     (if j \<in> set (k # ks) then Option.bind (hm_get (reqs s) j) (after ren j) else hm_get (reqs s) j)"
    using rest one(3) k by auto
  have "mode s' = (if \<exists>j\<in>set (k # ks). \<exists>r. hm_get (reqs s) j = Some r \<and> \<not> retries r < 3
                   then SS_Idle else mode s)"
    using rest one(4) same by auto
  then show ?case
    using gets rest one by simp
qed

end

definition renew_snapshot :: "instant \<Rightarrow> 'p snapshot_request \<Rightarrow> 'p snapshot_request" where
  "renew_snapshot t r = r\<lparr>sr_retries := sr_retries r + 1, sr_requested_at := t\<rparr>"

definition renew_transaction :: "instant \<Rightarrow> 'p transaction_request \<Rightarrow> 'p transaction_request" where
  "renew_transaction t r = r\<lparr>tr_retries := tr_retries r + 1, tr_requested_at := t\<rparr>"

lemmas renew_defs = renew_snapshot_def renew_transaction_def

text \<open>What a sweep of one table leaves alone.\<close>

definition other_than_snapshots where
  "other_than_snapshots s = (sy_pending_transaction_requests s, sy_pending_snapshots s,
     sy_downloaded_transactions s, sy_timeout s, sy_max_concurrent_requests s, sy_next_request_id s)"

definition other_than_transactions where
  "other_than_transactions s = (sy_pending_snapshot_requests s, sy_pending_snapshots s,
     sy_downloaded_transactions s, sy_timeout s, sy_max_concurrent_requests s, sy_next_request_id s)"

interpretation snap: retry_table sy_pending_snapshot_requests sr_retries sr_requested_at renew_snapshot
    sy_state other_than_snapshots retry_snapshot
  by unfold_locales (auto simp: retry_snapshot_def renew_defs other_than_snapshots_def Let_def)

interpretation trans: retry_table sy_pending_transaction_requests tr_retries tr_requested_at
    renew_transaction sy_state other_than_transactions retry_transactions
  by unfold_locales (auto simp: retry_transactions_def renew_defs other_than_transactions_def Let_def)

lemma timed_out_keys:
  assumes "hm_wf m"
  shows "distinct [k. (k, r) \<leftarrow> m, P r]"
    and "k \<in> set [k. (k, r) \<leftarrow> m, P r] \<longleftrightarrow> (\<exists>r. hm_get m k = Some r \<and> P r)"
proof -
  have eq: "[k. (k, r) \<leftarrow> m, P r] = map fst (filter (\<lambda>(k, r). P r) m)"
    by (induction m) auto
  show "distinct [k. (k, r) \<leftarrow> m, P r]"
    unfolding eq using assms by (rule hm_wf_filter)
  show "k \<in> set [k. (k, r) \<leftarrow> m, P r] \<longleftrightarrow> (\<exists>r. hm_get m k = Some r \<and> P r)"
    unfolding eq using assms by force
qed

definition requests_wf :: "('p, 's, 'd, 't) state_sync \<Rightarrow> bool" where
  "requests_wf s \<longleftrightarrow> hm_wf (sy_pending_snapshot_requests s) \<and> hm_wf (sy_pending_transaction_requests s)"

definition sync_budget :: "('p, 's, 'd, 't) state_sync \<Rightarrow> nat" where
  "sync_budget s = snap.budget (sy_pending_snapshot_requests s) + trans.budget (sy_pending_transaction_requests s)"

definition snapshot_due :: "instant \<Rightarrow> ('p, 's, 'd, 't) state_sync \<Rightarrow> 'p snapshot_request \<Rightarrow> bool" where
  "snapshot_due now s r \<longleftrightarrow> sy_timeout s < now - sr_requested_at r"

definition transaction_due :: "instant \<Rightarrow> ('p, 's, 'd, 't) state_sync \<Rightarrow> 'p transaction_request \<Rightarrow> bool" where
  "transaction_due now s r \<longleftrightarrow> sy_timeout s < now - tr_requested_at r"

lemma handle_timeouts_effect:
  assumes "requests_wf s" and "handle_timeouts now rs rt s = (as, s')"
  shows "requests_wf s'"
    and "sy_timeout s' = sy_timeout s" and "sy_max_concurrent_requests s' = sy_max_concurrent_requests s"
    and "sy_pending_snapshots s' = sy_pending_snapshots s" and "sy_next_request_id s' = sy_next_request_id s"
    and "sy_downloaded_transactions s' = sy_downloaded_transactions s"
    and "hm_get (sy_pending_snapshot_requests s') k =
          (case hm_get (sy_pending_snapshot_requests s) k of None \<Rightarrow> None
           | Some r \<Rightarrow> if snapshot_due now s r then snap.after rs k r else Some r)"
    and "hm_get (sy_pending_transaction_requests s') k =
          (case hm_get (sy_pending_transaction_requests s) k of None \<Rightarrow> None
           | Some q \<Rightarrow> if transaction_due now s q then trans.after rt k q else Some q)"
    and "sy_state s' =
          (if (\<exists>k r. hm_get (sy_pending_snapshot_requests s) k = Some r \<and> snapshot_due now s r
                 \<and> snap.after rs k r = None)
            \<or> (\<exists>k q. hm_get (sy_pending_transaction_requests s) k = Some q \<and> transaction_due now s q
                 \<and> trans.after rt k q = None)
           then SS_Idle else sy_state s)"
    and "length as + sync_budget s' = sync_budget s"
    and "hm_size (sy_pending_snapshot_requests s') \<le> hm_size (sy_pending_snapshot_requests s)"
    and "hm_size (sy_pending_transaction_requests s') \<le> hm_size (sy_pending_transaction_requests s)"
proof -
  let ?ks = "[k. (k, r) \<leftarrow> sy_pending_snapshot_requests s,
                sy_timeout s < duration_since now (sr_requested_at r)]"
  obtain as1 s1 where run1: "foldl (retry_snapshot rs) ([], s) ?ks = (as1, s1)" by fastforce
  have wf: "hm_wf (sy_pending_snapshot_requests s)" "hm_wf (sy_pending_transaction_requests s)"
    using assms(1) by (simp_all add: requests_wf_def)
  note one = snap.sweep [OF wf(1) run1 timed_out_keys(1) [OF wf(1)]]
  then have frame1: "sy_pending_transaction_requests s1 = sy_pending_transaction_requests s"
    "sy_pending_snapshots s1 = sy_pending_snapshots s" "sy_timeout s1 = sy_timeout s"
    "sy_downloaded_transactions s1 = sy_downloaded_transactions s"
    "sy_max_concurrent_requests s1 = sy_max_concurrent_requests s"
    "sy_next_request_id s1 = sy_next_request_id s"
    by (simp_all add: other_than_snapshots_def)
  let ?qs = "[k. (k, r) \<leftarrow> sy_pending_transaction_requests s,
                sy_timeout s < duration_since now (tr_requested_at r)]"
  have run2: "foldl (retry_transactions rt) (as1, s1) ?qs = (as, s')"
    using assms(2) by (simp add: handle_timeouts_def run1 frame1 split_beta)
  have wf1: "hm_wf (sy_pending_transaction_requests s1)" using wf(2) by (simp add: frame1)
  note two = trans.sweep [OF wf1 run2 timed_out_keys(1) [OF wf(2)]]
  then have frame2: "sy_pending_snapshot_requests s' = sy_pending_snapshot_requests s1"
    "sy_pending_snapshots s' = sy_pending_snapshots s1" "sy_timeout s' = sy_timeout s1"
    "sy_downloaded_transactions s' = sy_downloaded_transactions s1"
    "sy_max_concurrent_requests s' = sy_max_concurrent_requests s1"
    "sy_next_request_id s' = sy_next_request_id s1"
    by (simp_all add: other_than_transactions_def)
  note due = snapshot_due_def transaction_due_def
  have ks: "k \<in> set ?ks \<longleftrightarrow> (\<exists>r. hm_get (sy_pending_snapshot_requests s) k = Some r \<and> snapshot_due now s r)" for k
    unfolding timed_out_keys(2) [OF wf(1)] by (simp add: due duration_since_def)
  have qs: "k \<in> set ?qs \<longleftrightarrow> (\<exists>q. hm_get (sy_pending_transaction_requests s) k = Some q \<and> transaction_due now s q)" for k
    unfolding timed_out_keys(2) [OF wf(2)] by (simp add: due duration_since_def)
  show "requests_wf s'" using one two by (simp add: requests_wf_def frame2)
  show "sy_timeout s' = sy_timeout s" "sy_max_concurrent_requests s' = sy_max_concurrent_requests s"
    "sy_pending_snapshots s' = sy_pending_snapshots s" "sy_next_request_id s' = sy_next_request_id s"
    "sy_downloaded_transactions s' = sy_downloaded_transactions s"
    by (simp_all add: frame1 frame2)
  have "hm_get (sy_pending_snapshot_requests s') k = (if k \<in> set ?ks
      then Option.bind (hm_get (sy_pending_snapshot_requests s) k) (snap.after rs k)
      else hm_get (sy_pending_snapshot_requests s) k)"
    using one unfolding frame2 by blast
  then show "hm_get (sy_pending_snapshot_requests s') k =
          (case hm_get (sy_pending_snapshot_requests s) k of None \<Rightarrow> None
           | Some r \<Rightarrow> if snapshot_due now s r then snap.after rs k r else Some r)"
    unfolding ks by (auto split: option.split)
  have "hm_get (sy_pending_transaction_requests s') k = (if k \<in> set ?qs
      then Option.bind (hm_get (sy_pending_transaction_requests s) k) (trans.after rt k)
      else hm_get (sy_pending_transaction_requests s) k)"
    using two unfolding frame1 by blast
  then show "hm_get (sy_pending_transaction_requests s') k =
          (case hm_get (sy_pending_transaction_requests s) k of None \<Rightarrow> None
           | Some q \<Rightarrow> if transaction_due now s q then trans.after rt k q else Some q)"
    unfolding qs by (auto split: option.split)
  have "sy_state s' = (if \<exists>k\<in>set ?qs. \<exists>q. hm_get (sy_pending_transaction_requests s) k = Some q \<and> \<not> tr_retries q < 3
      then SS_Idle else sy_state s1)"
    using two unfolding frame1 by blast
  moreover have "sy_state s1 = (if \<exists>k\<in>set ?ks. \<exists>r. hm_get (sy_pending_snapshot_requests s) k = Some r \<and> \<not> sr_retries r < 3
      then SS_Idle else sy_state s)"
    using one by blast
  ultimately show "sy_state s' =
          (if (\<exists>k r. hm_get (sy_pending_snapshot_requests s) k = Some r \<and> snapshot_due now s r
                 \<and> snap.after rs k r = None)
            \<or> (\<exists>k q. hm_get (sy_pending_transaction_requests s) k = Some q \<and> transaction_due now s q
                 \<and> trans.after rt k q = None)
           then SS_Idle else sy_state s)"
    unfolding Bex_def ks qs snap.after_def trans.after_def by auto
  show "length as + sync_budget s' = sync_budget s"
    and "hm_size (sy_pending_snapshot_requests s') \<le> hm_size (sy_pending_snapshot_requests s)"
    and "hm_size (sy_pending_transaction_requests s') \<le> hm_size (sy_pending_transaction_requests s)"
    using one two by (simp_all add: sync_budget_def frame1 frame2)
qed

section \<open>Reachable states\<close>

inductive sync_reach ::
  "('s \<Rightarrow> u64) \<Rightarrow> ('s \<Rightarrow> 'd list) \<Rightarrow> ('t \<Rightarrow> 'd) \<Rightarrow> duration \<Rightarrow> usize \<Rightarrow> ('p, 's, 'd, 't) state_sync \<Rightarrow> bool"
  for sequence_number transactions digest timeout cap where
  initial: "sync_reach sequence_number transactions digest timeout cap (sync_with_config timeout cap)"
| start_snapshot: "sync_reach sequence_number transactions digest timeout cap s
    \<Longrightarrow> start_snapshot_download t t' n p s = (r, s')
    \<Longrightarrow> sync_reach sequence_number transactions digest timeout cap s'"
| snapshot: "sync_reach sequence_number transactions digest timeout cap s
    \<Longrightarrow> handle_snapshot sequence_number t snapshot p s = (r, s')
    \<Longrightarrow> sync_reach sequence_number transactions digest timeout cap s'"
| verification: "sync_reach sequence_number transactions digest timeout cap s
    \<Longrightarrow> complete_snapshot_verification transactions t n valid s = (r, s')
    \<Longrightarrow> sync_reach sequence_number transactions digest timeout cap s'"
| start_transactions: "sync_reach sequence_number transactions digest timeout cap s
    \<Longrightarrow> start_transaction_download t t' m n p s = (r, s')
    \<Longrightarrow> sync_reach sequence_number transactions digest timeout cap s'"
| transactions: "sync_reach sequence_number transactions digest timeout cap s
    \<Longrightarrow> handle_transactions digest txs p s = (r, s')
    \<Longrightarrow> sync_reach sequence_number transactions digest timeout cap s'"
| application: "sync_reach sequence_number transactions digest timeout cap s
    \<Longrightarrow> complete_transaction_application n s = (r, s')
    \<Longrightarrow> sync_reach sequence_number transactions digest timeout cap s'"
| timeouts: "sync_reach sequence_number transactions digest timeout cap s
    \<Longrightarrow> handle_timeouts now rs rt s = (as, s')
    \<Longrightarrow> sync_reach sequence_number transactions digest timeout cap s'"
| reset: "sync_reach sequence_number transactions digest timeout cap s
    \<Longrightarrow> sync_reach sequence_number transactions digest timeout cap (sync_reset s)"

definition sync_ok :: "('s \<Rightarrow> u64) \<Rightarrow> duration \<Rightarrow> usize \<Rightarrow> ('p, 's, 'd, 't) state_sync \<Rightarrow> bool" where
  "sync_ok sequence_number timeout cap s \<longleftrightarrow> requests_wf s
     \<and> sy_timeout s = timeout \<and> sy_max_concurrent_requests s = cap
     \<and> hm_size (sy_pending_snapshot_requests s) \<le> cap
     \<and> hm_size (sy_pending_transaction_requests s) \<le> cap
     \<and> (\<forall>k r. hm_get (sy_pending_snapshot_requests s) k = Some r \<longrightarrow> sr_sequence r = k \<and> unat (sr_retries r) \<le> 3)
     \<and> (\<forall>k q. hm_get (sy_pending_transaction_requests s) k = Some q \<longrightarrow> tr_id q = k \<and> unat (tr_retries q) \<le> 3)
     \<and> (\<forall>k p. hm_get (sy_pending_snapshots s) k = Some p \<longrightarrow> sequence_number (psn_snapshot p) = k)
     \<and> (\<forall>n. sy_state s = SS_VerifyingSnapshot n \<longrightarrow> hm_has (sy_pending_snapshots s) n)"

lemma sync_ok_initial: "sync_ok sq timeout cap (sync_with_config timeout cap)"
  by (simp add: sync_ok_def sync_with_config_def requests_wf_def)

text \<open>A change of mode alone, to anything but verifying.\<close>

lemma sync_ok_state:
  "sync_ok sq timeout cap s \<Longrightarrow> (\<And>n. st \<noteq> SS_VerifyingSnapshot n) \<Longrightarrow> sync_ok sq timeout cap (s\<lparr>sy_state := st\<rparr>)"
  by (simp add: sync_ok_def requests_wf_def)

lemma sync_ok_request_snapshot:
  assumes "sync_ok sq timeout cap s"
  shows "sync_ok sq timeout cap (snd (request_snapshot t n p s))"
proof (cases "cap \<le> hm_size (sy_pending_snapshot_requests s)")
  case True
  then show ?thesis using assms by (simp add: request_snapshot_def sync_ok_def)
next
  case False
  then show ?thesis
    using assms
    by (auto simp: request_snapshot_def sync_ok_def requests_wf_def hm_simps split: if_splits
        simp del: map_of_eq_Some_iff)
qed

lemma sync_ok_request_transactions:
  assumes "sync_ok sq timeout cap s"
  shows "sync_ok sq timeout cap (snd (request_transactions t m n p s))"
proof (cases "cap \<le> hm_size (sy_pending_transaction_requests s)")
  case True
  then show ?thesis using assms by (simp add: request_transactions_def sync_ok_def)
next
  case False
  then show ?thesis
    using assms
    by (auto simp: request_transactions_def sync_ok_def requests_wf_def Let_def hm_simps split: if_splits
        simp del: map_of_eq_Some_iff)
qed

lemma sync_ok_verification:
  assumes "sync_ok sq timeout cap s"
  shows "sync_ok sq timeout cap (snd (complete_snapshot_verification txs t n valid s))"
proof -
  have del: "sync_ok sq timeout cap (s\<lparr>sy_pending_snapshots := hm_del n (sy_pending_snapshots s), sy_state := st\<rparr>)"
    if "\<And>k. st \<noteq> SS_VerifyingSnapshot k" for st
    using assms that by (auto simp: sync_ok_def requests_wf_def hm_get_del split: if_splits
        simp del: map_of_eq_Some_iff)
  show ?thesis
    using assms del by (auto simp: complete_snapshot_verification_def Let_def split: option.split)
qed

lemma retry_count: "unat (n :: u32) < 3 \<Longrightarrow> unat (n + 1) = Suc (unat n)"
  by (intro unat_Suc_no_wrap) simp

lemma sync_ok_timeouts:
  assumes "sync_ok sq timeout cap s" and "handle_timeouts now rs rt s = (as, s')"
  shows "sync_ok sq timeout cap s'"
proof -
  have wf: "requests_wf s" using assms(1) by (simp add: sync_ok_def)
  note eff = handle_timeouts_effect [OF wf assms(2)]
  have snap: "sr_sequence r' = k \<and> unat (sr_retries r') \<le> 3"
    if "hm_get (sy_pending_snapshot_requests s') k = Some r'" for k r'
    using that assms(1) eff(7) [of k]
    by (auto simp: sync_ok_def snap.after_def renew_snapshot_def word_less_nat_alt retry_count
        split: option.splits if_splits simp del: map_of_eq_Some_iff)
  have trans: "tr_id q' = k \<and> unat (tr_retries q') \<le> 3"
    if "hm_get (sy_pending_transaction_requests s') k = Some q'" for k q'
    using that assms(1) eff(8) [of k]
    by (auto simp: sync_ok_def trans.after_def renew_transaction_def word_less_nat_alt retry_count
        split: option.splits if_splits simp del: map_of_eq_Some_iff)
  have "\<forall>n. sy_state s' = SS_VerifyingSnapshot n \<longrightarrow> hm_has (sy_pending_snapshots s') n"
    using assms(1) unfolding eff(9) eff(4) by (simp add: sync_ok_def)
  then show ?thesis
    using assms(1) eff(1-3,11,12) snap trans
    by (simp add: sync_ok_def eff(4) del: map_of_eq_Some_iff)
qed

lemma sync_reach_ok: "sync_reach sq txs dg timeout cap s \<Longrightarrow> sync_ok sq timeout cap s"
proof (induction rule: sync_reach.induct)
  case initial
  show ?case by (rule sync_ok_initial)
next
  case (start_snapshot s t t' n p r s')
  then show ?case
    using sync_ok_request_snapshot [OF sync_ok_state [OF start_snapshot.IH], of "SS_DownloadingSnapshot n t" t' n p]
    by (auto simp: start_snapshot_download_def split: if_splits)
next
  case (snapshot s t sn p r s')
  then show ?case
    by (auto simp: handle_snapshot_def Let_def sync_ok_def requests_wf_def hm_simps
        intro: hm.del_within split: if_splits simp del: map_of_eq_Some_iff)
next
  case (verification s t n valid r s')
  then show ?case
    using sync_ok_verification [of sq timeout cap s txs t n valid] by simp
next
  case (start_transactions s t t' m n p r s')
  then show ?case
    using sync_ok_request_transactions [OF sync_ok_state [OF start_transactions.IH], of "SS_DownloadingTransactions m n t" t' m n p]
    by (auto simp: start_transaction_download_def)
next
  case (transactions s ts p r s')
  then show ?case
    by (auto simp: handle_transactions_def Let_def sync_ok_def requests_wf_def
        split: sync_state.splits if_splits)
next
  case (application s n r s')
  then show ?case
    by (auto simp: complete_transaction_application_def intro: sync_ok_state)
next
  case (timeouts s now rs rt as s')
  then show ?case by (blast intro: sync_ok_timeouts)
next
  case (reset s)
  then show ?case
    by (simp add: sync_reset_def sync_ok_def requests_wf_def)
qed

section \<open>Repeated sweeps\<close>

type_synonym sweep = "instant \<times> (u64 \<Rightarrow> instant) \<times> (u64 \<Rightarrow> instant)"

fun sweep_run :: "sweep list \<Rightarrow> ('p, 's, 'd, 't) state_sync
    \<Rightarrow> ('p, 's, 't) sync_action list \<times> ('p, 's, 'd, 't) state_sync" where
  "sweep_run [] s = ([], s)"
| "sweep_run ((now, rs, rt) # sw) s =
     (let (as, s1) = handle_timeouts now rs rt s; (bs, s2) = sweep_run sw s1 in (as @ bs, s2))"

text \<open>Each sweep comes more than the timeout after every request, or its last renewal.\<close>

fun spaced :: "instant \<Rightarrow> duration \<Rightarrow> sweep list \<Rightarrow> bool" where
  "spaced b timeout [] \<longleftrightarrow> True"
| "spaced b timeout ((now, rs, rt) # sw) \<longleftrightarrow>
     b + timeout < now \<and> (\<exists>b'. (\<forall>k. rs k \<le> b' \<and> rt k \<le> b') \<and> spaced b' timeout sw)"

lemma spaced_const: "b + timeout < now \<Longrightarrow> spaced c timeout sw \<Longrightarrow> spaced b timeout ((now, \<lambda>_. c, \<lambda>_. c) # sw)"
  by auto

definition requested_by :: "instant \<Rightarrow> ('p, 's, 'd, 't) state_sync \<Rightarrow> bool" where
  "requested_by b s \<longleftrightarrow>
     (\<forall>k r. hm_get (sy_pending_snapshot_requests s) k = Some r \<longrightarrow> sr_requested_at r \<le> b)
   \<and> (\<forall>k q. hm_get (sy_pending_transaction_requests s) k = Some q \<longrightarrow> tr_requested_at q \<le> b)"

definition retried :: "nat \<Rightarrow> ('p, 's, 'd, 't) state_sync \<Rightarrow> bool" where
  "retried n s \<longleftrightarrow>
     (\<forall>k r. hm_get (sy_pending_snapshot_requests s) k = Some r \<longrightarrow> n \<le> unat (sr_retries r))
   \<and> (\<forall>k q. hm_get (sy_pending_transaction_requests s) k = Some q \<longrightarrow> n \<le> unat (tr_retries q))"

definition nothing_pending :: "('p, 's, 'd, 't) state_sync \<Rightarrow> bool" where
  "nothing_pending s \<longleftrightarrow> sy_pending_snapshot_requests s = [] \<and> sy_pending_transaction_requests s = []"

lemma map_of_empty_iff: "(\<forall>k. map_of m k = None) \<longleftrightarrow> m = []"
  by (cases m) auto

lemma nothing_pending_iff:
  "nothing_pending s \<longleftrightarrow> (\<forall>k. hm_get (sy_pending_snapshot_requests s) k = None)
     \<and> (\<forall>k. hm_get (sy_pending_transaction_requests s) k = None)"
  by (simp add: nothing_pending_def map_of_empty_iff)

lemma sweep_all_due:
  assumes "requests_wf s" and "requested_by b s" and "b + sy_timeout s < now" and "retried n s"
    and "\<forall>k. rs k \<le> b' \<and> rt k \<le> b'" and "handle_timeouts now rs rt s = (as, s')"
  shows "requested_by b' s'" and "retried (Suc n) s'"
    and "nothing_pending s' \<Longrightarrow> sy_state s' = (if nothing_pending s then sy_state s else SS_Idle)"
proof -
  note eff = handle_timeouts_effect [OF assms(1,6)]
  have due: "snapshot_due now s r" if "hm_get (sy_pending_snapshot_requests s) k = Some r" for k r
    using that assms(2,3) by (fastforce simp: requested_by_def snapshot_due_def simp del: map_of_eq_Some_iff)
  have due': "transaction_due now s q" if "hm_get (sy_pending_transaction_requests s) k = Some q" for k q
    using that assms(2,3) by (fastforce simp: requested_by_def transaction_due_def simp del: map_of_eq_Some_iff)
  have get: "hm_get (sy_pending_snapshot_requests s') k = Option.bind (hm_get (sy_pending_snapshot_requests s) k) (snap.after rs k)"
    and get': "hm_get (sy_pending_transaction_requests s') k = Option.bind (hm_get (sy_pending_transaction_requests s) k) (trans.after rt k)"
    for k
    using eff(7,8) [of k] due [of k] due' [of k] by (auto split: option.split simp del: map_of_eq_Some_iff)
  show "requested_by b' s'" and "retried (Suc n) s'"
    using assms(4,5) unfolding requested_by_def retried_def get get'
    by (auto simp: snap.after_def trans.after_def renew_defs word_less_nat_alt retry_count bind_eq_Some_conv
        split: if_splits simp del: map_of_eq_Some_iff)
  assume "nothing_pending s'"
  then have none: "Option.bind (hm_get (sy_pending_snapshot_requests s) k) (snap.after rs k) = None"
    "Option.bind (hm_get (sy_pending_transaction_requests s) k) (trans.after rt k) = None" for k
    unfolding nothing_pending_iff get get' by simp_all
  show "sy_state s' = (if nothing_pending s then sy_state s else SS_Idle)"
  proof (cases "nothing_pending s")
    case True
    then show ?thesis by (simp add: eff(9) nothing_pending_def)
  next
    case False
    then obtain k where "hm_has (sy_pending_snapshot_requests s) k \<or> hm_has (sy_pending_transaction_requests s) k"
      unfolding nothing_pending_iff by blast
    then have stop: "(\<exists>k r. hm_get (sy_pending_snapshot_requests s) k = Some r \<and> snapshot_due now s r
                 \<and> snap.after rs k r = None)
            \<or> (\<exists>k q. hm_get (sy_pending_transaction_requests s) k = Some q \<and> transaction_due now s q
                 \<and> trans.after rt k q = None)"
    proof
      assume "hm_has (sy_pending_snapshot_requests s) k"
      then obtain r where "hm_get (sy_pending_snapshot_requests s) k = Some r" by blast
      with none(1) [of k] due [of k] show ?thesis by auto
    next
      assume "hm_has (sy_pending_transaction_requests s) k"
      then obtain q where "hm_get (sy_pending_transaction_requests s) k = Some q" by blast
      with none(2) [of k] due' [of k] show ?thesis by auto
    qed
    show ?thesis by (simp only: eff(9) stop False if_True if_False)
  qed
qed

lemma sweeps_clear:
  assumes "requests_wf s" and "requested_by b s" and "spaced b (sy_timeout s) sw" and "retried n s"
    and "4 \<le> n + length sw" and "sync_ok sq timeout cap s" and "sweep_run sw s = (as, s')"
  shows "nothing_pending s' \<and> sy_state s' = (if nothing_pending s then sy_state s else SS_Idle)"
  using assms
proof (induction sw arbitrary: s b n as)
  case Nil
  have "hm_get (sy_pending_snapshot_requests s) k = None" for k
  proof (cases "hm_get (sy_pending_snapshot_requests s) k")
    case (Some r)
    then have "n \<le> unat (sr_retries r)" and "unat (sr_retries r) \<le> 3"
      using Nil.prems(4,6) by (simp_all add: retried_def sync_ok_def del: map_of_eq_Some_iff)
    then show ?thesis using Nil.prems(5) by simp
  qed
  moreover have "hm_get (sy_pending_transaction_requests s) k = None" for k
  proof (cases "hm_get (sy_pending_transaction_requests s) k")
    case (Some q)
    then have "n \<le> unat (tr_retries q)" and "unat (tr_retries q) \<le> 3"
      using Nil.prems(4,6) by (simp_all add: retried_def sync_ok_def del: map_of_eq_Some_iff)
    then show ?thesis using Nil.prems(5) by simp
  qed
  ultimately have "nothing_pending s" by (simp add: nothing_pending_iff)
  with Nil show ?case by simp
next
  case (Cons w sw)
  obtain now rs rt where w: "w = (now, rs, rt)" by (cases w)
  obtain as1 s1 where step: "handle_timeouts now rs rt s = (as1, s1)" by fastforce
  obtain bs where run: "sweep_run sw s1 = (bs, s')"
    using Cons.prems(7) by (auto simp: w step split: prod.splits)
  from Cons.prems(3) obtain b' where b: "b + sy_timeout s < now" "\<forall>k. rs k \<le> b' \<and> rt k \<le> b'"
    and sp: "spaced b' (sy_timeout s) sw" by (auto simp: w)
  note eff = handle_timeouts_effect [OF Cons.prems(1) step]
  note due = sweep_all_due [OF Cons.prems(1,2) b(1) Cons.prems(4) b(2) step]
  have "spaced b' (sy_timeout s1) sw" using sp by (simp add: eff(2))
  moreover have "4 \<le> Suc n + length sw" using Cons.prems(5) by simp
  ultimately have IH: "nothing_pending s' \<and> sy_state s' = (if nothing_pending s1 then sy_state s1 else SS_Idle)"
    using Cons.IH [OF eff(1) due(1) _ due(2) _ sync_ok_timeouts [OF Cons.prems(6) step] run] by blast
  have "nothing_pending s1" if "nothing_pending s"
    using that eff(11,12) by (simp add: nothing_pending_def)
  then show ?case using IH due(3) by (auto split: if_splits)
qed

text \<open>What a sweep may send out: retries of requests that are pending.\<close>

definition retry_of :: "('p, 's, 'd, 't) state_sync \<Rightarrow> ('p, 's, 't) sync_action \<Rightarrow> bool" where
  "retry_of s a \<longleftrightarrow>
     (\<exists>k r. hm_get (sy_pending_snapshot_requests s) k = Some r \<and> a = SA_RetrySnapshotRequest k (sr_peer_id r))
   \<or> (\<exists>k q. hm_get (sy_pending_transaction_requests s) k = Some q
        \<and> a = SA_RetryTransactionRequest (tr_from_sequence q) (tr_to_sequence q) (tr_peer_id q))"

definition only_retries ::
  "('p, 's, 't) sync_action list \<times> ('p, 's, 'd, 't) state_sync
     \<Rightarrow> ('p, 's, 't) sync_action list \<times> ('p, 's, 'd, 't) state_sync \<Rightarrow> bool" where
  "only_retries acc acc' \<longleftrightarrow>
     (\<forall>a\<in>set (fst acc'). a \<in> set (fst acc) \<or> retry_of (snd acc) a)
   \<and> (\<forall>a. retry_of (snd acc') a \<longrightarrow> retry_of (snd acc) a)
   \<and> (sy_state (snd acc') = sy_state (snd acc) \<or> sy_state (snd acc') = SS_Idle)"

lemma only_retries_refl: "only_retries acc acc"
  by (simp add: only_retries_def)

lemma only_retries_trans: "only_retries a b \<Longrightarrow> only_retries b c \<Longrightarrow> only_retries a c"
  unfolding only_retries_def by metis

lemma only_retries_step:
  "only_retries acc (retry_snapshot rs acc k)" "only_retries acc (retry_transactions rt acc k)"
proof -
  show "only_retries acc (retry_snapshot rs acc k)"
    by (cases acc) (auto simp: retry_snapshot_def only_retries_def retry_of_def Let_def hm_simps
        split: option.split if_splits simp del: map_of_eq_Some_iff)
  show "only_retries acc (retry_transactions rt acc k)"
    by (cases acc) (auto simp: retry_transactions_def only_retries_def retry_of_def Let_def hm_simps
        split: option.split if_splits simp del: map_of_eq_Some_iff)
qed

lemma only_retries_foldl:
  assumes "\<And>acc k. only_retries acc (f acc k)"
  shows "only_retries acc (foldl f acc ks)"
proof (induction ks arbitrary: acc)
  case Nil
  then show ?case by (simp add: only_retries_refl)
next
  case (Cons k ks)
  show ?case unfolding foldl_Cons by (rule only_retries_trans [OF assms Cons.IH])
qed

lemma only_retries_timeouts: "only_retries ([], s) (handle_timeouts now rs rt s)"
  unfolding handle_timeouts_def Let_def split_beta prod.collapse
  by (rule only_retries_trans [OF only_retries_foldl only_retries_foldl]; rule only_retries_step)

lemma only_retries_run: "only_retries ([], s) (sweep_run sw s)"
proof (induction sw arbitrary: s)
  case Nil
  then show ?case by (simp add: only_retries_refl)
next
  case (Cons w sw)
  obtain now rs rt where w: "w = (now, rs, rt)" by (cases w)
  show ?case
    using only_retries_timeouts [of s now rs rt] Cons.IH [of "snd (handle_timeouts now rs rt s)"]
    by (auto simp: w only_retries_def split_beta)
qed

lemma sweep_run_nothing: "nothing_pending s \<Longrightarrow> sweep_run sw s = ([], s)"
  by (induction sw) (auto simp: handle_timeouts_def nothing_pending_def)

lemma sweep_run_budget:
  assumes "requests_wf s" and "sweep_run sw s = (as, s')"
  shows "length as + sync_budget s' = sync_budget s"
  using assms
proof (induction sw arbitrary: s as)
  case Nil
  then show ?case by simp
next
  case (Cons w sw)
  obtain now rs rt where w: "w = (now, rs, rt)" by (cases w)
  obtain as1 s1 where step: "handle_timeouts now rs rt s = (as1, s1)" by fastforce
  obtain bs where "sweep_run sw s1 = (bs, s')" and "as = as1 @ bs"
    using Cons.prems(2) by (auto simp: w step split: prod.splits)
  with Cons.IH [OF handle_timeouts_effect(1) [OF Cons.prems(1) step]]
    handle_timeouts_effect(10) [OF Cons.prems(1) step]
  show ?case by simp
qed

lemma sync_budget_le:
  "sync_budget s \<le> 3 * (hm_size (sy_pending_snapshot_requests s) + hm_size (sy_pending_transaction_requests s))"
proof -
  have "snap.budget (sy_pending_snapshot_requests s) \<le> 3 * hm_size (sy_pending_snapshot_requests s)"
    and "trans.budget (sy_pending_transaction_requests s) \<le> 3 * hm_size (sy_pending_transaction_requests s)"
    unfolding snap.budget_def trans.budget_def by (rule hm_sum_le; simp)+
  then show ?thesis by (simp add: sync_budget_def add_mult_distrib2 add_mono)
qed

section \<open>Downloads one after the other\<close>

type_synonym ('p, 't) download = "instant \<times> instant \<times> u64 \<times> u64 \<times> 'p \<times> 't list"

text \<open>A download as it should go: request, receive, apply.\<close>

definition download_cycle ::
  "('t \<Rightarrow> 'd) \<Rightarrow> ('p, 't) download \<Rightarrow> ('p, 's, 'd, 't) state_sync \<Rightarrow> ('p, 's, 'd, 't) state_sync" where
  "download_cycle digest job s =
     (let (t, t', m, n, p, txs) = job;
          s1 = snd (start_transaction_download t t' m n p s);
          s2 = snd (handle_transactions digest txs p s1)
      in snd (complete_transaction_application n s2))"

lemma handle_transactions_frame:
  "sy_pending_transaction_requests (snd (handle_transactions digest txs p s)) = sy_pending_transaction_requests s"
  "sy_next_request_id (snd (handle_transactions digest txs p s)) = sy_next_request_id s"
  "sy_max_concurrent_requests (snd (handle_transactions digest txs p s)) = sy_max_concurrent_requests s"
  by (simp_all add: handle_transactions_def Let_def split: sync_state.split)

text \<open>After \<open>k\<close> downloads the requests \<open>0, ..., k - 1\<close> are still in the table.\<close>

definition leaked :: "nat \<Rightarrow> ('p, 's, 'd, 't) state_sync \<Rightarrow> bool" where
  "leaked k s \<longleftrightarrow> hm_size (sy_pending_transaction_requests s) = k \<and> sy_next_request_id s = word_of_nat k
     \<and> (\<forall>i. hm_has (sy_pending_transaction_requests s) i \<longrightarrow> unat i < k)"

lemma leaked_initial:
  "leaked 0 (sync_with_config timeout cap)"
  "sy_max_concurrent_requests (sync_with_config timeout cap) = cap"
  by (simp_all add: leaked_def sync_with_config_def)

lemma download_cycle_leaks:
  assumes "leaked k s" and "k < sy_max_concurrent_requests s" and "Suc k < 2 ^ 64"
  shows "leaked (Suc k) (download_cycle digest job s)"
    and "sy_max_concurrent_requests (download_cycle digest job s) = sy_max_concurrent_requests s"
proof -
  obtain t t' m n p txs where job: "job = (t, t', m, n, p, txs)" by (cases job)
  let ?s1 = "snd (start_transaction_download t t' m n p s)"
  have k: "unat (word_of_nat k :: u64) = k"
    using assms(3) by (intro unat_of_nat_small) simp
  then have fresh: "hm_get (sy_pending_transaction_requests s) (word_of_nat k) = None"
    using assms(1) by (auto simp: leaked_def simp del: map_of_eq_None_iff map_of_eq_Some_iff)
  have s1: "sy_pending_transaction_requests ?s1 = hm_put (word_of_nat k)
      \<lparr>tr_id = word_of_nat k, tr_from_sequence = m, tr_to_sequence = n, tr_peer_id = p,
       tr_requested_at = t', tr_retries = 0\<rparr> (sy_pending_transaction_requests s)"
    "sy_next_request_id ?s1 = word_of_nat (Suc k)"
    "sy_max_concurrent_requests ?s1 = sy_max_concurrent_requests s"
    using assms(1,2)
    by (simp_all add: start_transaction_download_def request_transactions_def leaked_def Let_def add.commute)
  have "leaked (Suc k) ?s1"
    using assms(1) k fresh unfolding leaked_def s1 hm_get_put hm_size_put
    by (auto simp: less_Suc_eq simp del: map_of_eq_Some_iff)
  then show "leaked (Suc k) (download_cycle digest job s)"
    and "sy_max_concurrent_requests (download_cycle digest job s) = sy_max_concurrent_requests s"
    by (simp_all add: download_cycle_def job Let_def complete_transaction_application_def leaked_def
        handle_transactions_frame s1(3))
qed

lemma download_cycles_leak:
  assumes "leaked k s" and "k + length jobs \<le> sy_max_concurrent_requests s" and "k + length jobs < 2 ^ 64"
  shows "leaked (k + length jobs) (fold (download_cycle digest) jobs s)
    \<and> sy_max_concurrent_requests (fold (download_cycle digest) jobs s) = sy_max_concurrent_requests s"
  using assms
proof (induction jobs arbitrary: k s)
  case Nil
  then show ?case by simp
next
  case (Cons job jobs)
  then have "k < sy_max_concurrent_requests s" "Suc k < 2 ^ 64" by simp_all
  note one = download_cycle_leaks [OF Cons.prems(1) this, of digest job]
  from Cons.IH [OF one(1)] Cons.prems(2,3) show ?case
    by (simp add: one(2))
qed

lemma download_cycles_synced:
  "jobs \<noteq> [] \<Longrightarrow> \<exists>k. sy_state (fold (download_cycle digest) jobs s) = SS_Synced k"
  by (cases jobs rule: rev_cases)
    (auto simp: download_cycle_def complete_transaction_application_def split: prod.split)

lemma progress_range:
  "0 \<le> sp_progress (get_progress s) \<and> sp_progress (get_progress s) \<le> 1"
proof -
  have "rnd64 (95 / 100) \<le> rnd64 1" by (rule rnd64_mono) simp
  then have "rnd64 (95 / 100) \<le> 1" by simp
  moreover have "0 \<le> download_progress n e" "download_progress n e \<le> 1" for n e
    by (simp_all add: download_progress_def f64_div_def f64_of_u64_def)
  ultimately show ?thesis
    by (simp add: get_progress_def split: sync_state.split)
qed

section \<open>Properties\<close>

text \<open>
  C1: every reachable state is sound. Whatever the sequence of calls, neither table of requests
  exceeds the configured limit, no request is retried more than three times, the progress is
  between 0 and 1, and in the verifying state the snapshot that is being verified is stored under
  its own sequence number, so that a positive verdict never fails but yields that snapshot.
\<close>

theorem sync_reachable_sound:
  assumes "sync_reach sequence_number transactions digest timeout cap s"
  shows "hm_size (sy_pending_snapshot_requests s) \<le> cap
     \<and> hm_size (sy_pending_transaction_requests s) \<le> cap
     \<and> (hm_get (sy_pending_snapshot_requests s) k = Some req \<longrightarrow> unat (sr_retries req) \<le> 3)
     \<and> (hm_get (sy_pending_transaction_requests s) k = Some treq \<longrightarrow> unat (tr_retries treq) \<le> 3)
     \<and> 0 \<le> sp_progress (get_progress s) \<and> sp_progress (get_progress s) \<le> 1
     \<and> (sy_state s = SS_VerifyingSnapshot n \<longrightarrow>
          (\<exists>sn. sequence_number sn = n
             \<and> fst (complete_snapshot_verification transactions now n True s) = Inr (SA_ApplySnapshot sn)))"
proof -
  have ok: "sync_ok sequence_number timeout cap s" by (rule sync_reach_ok [OF assms])
  have "\<exists>sn. sequence_number sn = n
     \<and> fst (complete_snapshot_verification transactions now n True s) = Inr (SA_ApplySnapshot sn)"
    if st: "sy_state s = SS_VerifyingSnapshot n"
  proof -
    from ok st obtain p where p: "hm_get (sy_pending_snapshots s) n = Some p"
      by (auto simp: sync_ok_def simp del: map_of_eq_Some_iff)
    then have "sequence_number (psn_snapshot p) = n" using ok by (simp add: sync_ok_def del: map_of_eq_Some_iff)
    then show ?thesis
      by (intro exI [of _ "psn_snapshot p"])
         (simp add: complete_snapshot_verification_def p Let_def del: map_of_eq_Some_iff)
  qed
  then show ?thesis
    using ok progress_range [of s] by (auto simp: sync_ok_def simp del: map_of_eq_Some_iff)
qed

text \<open>
  Concrete runs: a snapshot is its sequence number with the digests it lists, a transaction is its
  own digest, and a peer is a number.
\<close>

type_synonym demo_sync = "(nat, u64 \<times> nat list, nat, nat) state_sync"

lemma demo_reach_verifying:
  "sync_reach fst snd (\<lambda>t. t) 30 10
     (snd (handle_snapshot fst 5 (7, [1]) 2 (sync_with_config 30 10 :: demo_sync)))"
  by (rule sync_reach.snapshot [OF sync_reach.initial prod.collapse [symmetric]])

theorem sync_reachable_sound_witness:
  "\<exists>sn. fst sn = (7 :: u64) \<and> fst (complete_snapshot_verification snd 9 7 True
      (snd (handle_snapshot fst 5 (7, [1]) 2 (sync_with_config 30 10 :: demo_sync)))) = Inr (SA_ApplySnapshot sn)"
proof -
  have "sy_state (snd (handle_snapshot fst 5 (7, [1]) 2 (sync_with_config 30 10 :: demo_sync))) = SS_VerifyingSnapshot 7"
    by (simp add: handle_snapshot_def Let_def)
  with sync_reachable_sound [OF demo_reach_verifying] show ?thesis by blast
qed

text \<open>
  C18: retries are bounded. Over any number of sweeps at any times, the retry actions emitted and
  the retries left add up to a constant; from a reachable state no more than three retries are ever
  emitted per pending request, so polling the timeouts cannot flood the network.
\<close>

theorem retry_budget:
  assumes "sync_reach sequence_number transactions digest timeout cap s"
    and "sweep_run sweeps s = (actions, s')"
  shows "length actions + sync_budget s' = sync_budget s
     \<and> length actions \<le> 3 * (hm_size (sy_pending_snapshot_requests s) + hm_size (sy_pending_transaction_requests s))
     \<and> length actions \<le> 6 * cap"
proof -
  have ok: "sync_ok sequence_number timeout cap s" by (rule sync_reach_ok [OF assms(1)])
  have "length actions + sync_budget s' = sync_budget s"
    using sweep_run_budget [OF _ assms(2)] ok by (simp add: sync_ok_def)
  moreover have "hm_size (sy_pending_snapshot_requests s) \<le> cap" "hm_size (sy_pending_transaction_requests s) \<le> cap"
    using ok by (simp_all add: sync_ok_def)
  moreover from this have "3 * (hm_size (sy_pending_snapshot_requests s) + hm_size (sy_pending_transaction_requests s)) \<le> 6 * cap"
    by simp
  ultimately show ?thesis
    using sync_budget_le [of s] by (intro conjI) linarith+
qed

definition demo_requested :: demo_sync where
  "demo_requested = snd (start_snapshot_download 0 0 7 2 (sync_with_config 30 10))"

lemma demo_requested_reach: "sync_reach fst snd (\<lambda>t. t) 30 10 demo_requested"
  unfolding demo_requested_def
  by (rule sync_reach.start_snapshot [OF sync_reach.initial prod.collapse [symmetric]])

lemma demo_requested_eq:
  "demo_requested = (sync_with_config 30 10)\<lparr>sy_state := SS_DownloadingSnapshot 7 0,
     sy_pending_snapshot_requests := [(7, \<lparr>sr_sequence = 7, sr_peer_id = 2, sr_requested_at = 0, sr_retries = 0\<rparr>)]\<rparr>"
  by (simp add: demo_requested_def start_snapshot_download_def is_syncing_def sync_with_config_def request_snapshot_def)

theorem retry_budget_witness:
  "length (fst (sweep_run [(100, \<lambda>_. 100, \<lambda>_. 100), (200, \<lambda>_. 200, \<lambda>_. 200)] demo_requested)) \<le> 3"
proof -
  obtain as s where run: "sweep_run [(100, \<lambda>_. 100, \<lambda>_. 100), (200, \<lambda>_. 200, \<lambda>_. 200)] demo_requested = (as, s)"
    by fastforce
  from retry_budget [OF demo_requested_reach this] show ?thesis
    unfolding run by (simp add: demo_requested_eq sync_with_config_def)
qed

text \<open>
  C17: unanswered requests die out. If nobody answers, four sweeps, each later than the timeout
  after the previous renewals, empty both tables and leave the machine idle, from whatever state
  it was in: a request left over from an earlier, completed download takes a synced node back to
  idle as well.
\<close>

theorem requests_die_out:
  assumes "sync_reach sequence_number transactions digest timeout cap s"
    and "requested_by b s" and "spaced b timeout sweeps" and "length sweeps = 4"
    and "sweep_run sweeps s = (actions, s')"
  shows "nothing_pending s' \<and> sy_state s' = (if nothing_pending s then sy_state s else SS_Idle)"
proof -
  have ok: "sync_ok sequence_number timeout cap s" by (rule sync_reach_ok [OF assms(1)])
  then have wf: "requests_wf s" and sp: "spaced b (sy_timeout s) sweeps"
    using assms(3) by (simp_all add: sync_ok_def)
  have "retried 0 s" by (simp add: retried_def)
  moreover have "4 \<le> 0 + length sweeps" using assms(4) by simp
  ultimately show ?thesis
    by (rule sweeps_clear [OF wf assms(2) sp _ _ ok assms(5)])
qed

definition demo_sweeps :: "sweep list" where
  "demo_sweeps = [(100, \<lambda>_. 100, \<lambda>_. 100), (200, \<lambda>_. 200, \<lambda>_. 200), (300, \<lambda>_. 300, \<lambda>_. 300), (400, \<lambda>_. 400, \<lambda>_. 400)]"

text \<open>A node that is synced, with the request of the download that synced it.\<close>

definition demo_synced :: demo_sync where
  "demo_synced = download_cycle (\<lambda>t. t) (0, 0, 5, 5, 2, [1]) (sync_with_config 30 10)"

lemma demo_synced_reach: "sync_reach fst snd (\<lambda>t. t) 30 10 demo_synced"
  unfolding demo_synced_def download_cycle_def Let_def prod.case
  by (rule sync_reach.application [OF sync_reach.transactions [OF sync_reach.start_transactions
        [OF sync_reach.initial prod.collapse [symmetric]] prod.collapse [symmetric]] prod.collapse [symmetric]])

lemma demo_synced_eq:
  "demo_synced = (sync_with_config 30 10)\<lparr>sy_state := SS_Synced 5, sy_next_request_id := 1,
     sy_pending_transaction_requests := [(0, \<lparr>tr_id = 0, tr_from_sequence = 5, tr_to_sequence = 5, tr_peer_id = 2,
        tr_requested_at = 0, tr_retries = 0\<rparr>)]\<rparr>"
  by (simp add: demo_synced_def download_cycle_def start_transaction_download_def request_transactions_def
      sync_with_config_def Let_def handle_transactions_def store_transactions_def complete_transaction_application_def)

theorem requests_die_out_witness:
  "sy_state demo_synced = SS_Synced 5 \<and> sy_state (snd (sweep_run demo_sweeps demo_synced)) = SS_Idle"
proof -
  have "requested_by 0 demo_synced"
    by (simp add: requested_by_def demo_synced_eq sync_with_config_def)
  moreover have "spaced 0 30 demo_sweeps"
    unfolding demo_sweeps_def by (intro spaced_const) simp_all
  moreover have "length demo_sweeps = 4" by (simp add: demo_sweeps_def)
  ultimately have "sy_state (snd (sweep_run demo_sweeps demo_synced))
      = (if nothing_pending demo_synced then sy_state demo_synced else SS_Idle)"
    using requests_die_out [OF demo_synced_reach _ _ _ prod.collapse [symmetric], of 0 demo_sweeps] by blast
  then show ?thesis
    by (simp add: demo_synced_eq nothing_pending_def)
qed





end
