(* ===== verification/Concurrent_Tasks.thy ===== *)
theory Concurrent_Tasks
  imports Prelude "HOL-Library.Multiset"
begin

text \<open>
  Concurrent tasks that share a table and a block of counters. A task is the list of its atomic
  events; an event changes the entry of one key and the counters. The locale states when the order
  in which the events of different tasks happen does not matter: the effects on the counters
  commute, and the tasks own different keys.
\<close>

section \<open>Interleavings\<close>

inductive interleaving :: "'e list list \<Rightarrow> 'e list \<Rightarrow> bool" where
  all_done: "\<forall>t\<in>set tasks. t = [] \<Longrightarrow> interleaving tasks []"
| next_step: "interleaving (xs @ t # ys) es \<Longrightarrow> interleaving (xs @ (e # t) # ys) (e # es)"

text \<open>The sequential run is one of the interleavings, so there always is one.\<close>

lemma interleaving_concat: "interleaving tasks (concat tasks)"
proof -
  have empty: "interleaving (replicate n []) []" for n
    by (rule all_done) simp
  have "interleaving (replicate n [] @ tasks) (concat tasks)" for n
  proof (induction tasks arbitrary: n)
    case Nil
    then show ?case using empty by simp
  next
    case (Cons t tasks)
    show ?case
    proof (induction t)
      case Nil
      then show ?case using Cons.IH [of "Suc n"] by (simp add: replicate_app_Cons_same)
    next
      case (Cons e t)
      then show ?case by (auto intro: next_step)
    qed
  qed
  from this [of 0] show ?thesis by simp
qed

lemma interleaving_left: "interleaving [t, u] es \<Longrightarrow> interleaving [e # t, u] (e # es)"
  using next_step [of "[]" t "[u]"] by simp

lemma interleaving_right: "interleaving [t, u] es \<Longrightarrow> interleaving [t, e # u] (e # es)"
  using next_step [of "[t]" u "[]"] by simp

text \<open>Of two tasks the interleavings are the shuffles of the library.\<close>

inductive_simps interleaving_Nil: "interleaving tasks []"
inductive_simps interleaving_Cons: "interleaving tasks (e # es)"

lemma interleaving_two_Cons:
  "interleaving [t, u] (e # es) \<longleftrightarrow>
     (\<exists>t'. t = e # t' \<and> interleaving [t', u] es) \<or> (\<exists>u'. u = e # u' \<and> interleaving [t, u'] es)"
proof
  assume "interleaving [t, u] (e # es)"
  then show "(\<exists>t'. t = e # t' \<and> interleaving [t', u] es) \<or> (\<exists>u'. u = e # u' \<and> interleaving [t, u'] es)"
    by (auto simp: interleaving_Cons Cons_eq_append_conv append_eq_Cons_conv)
qed (auto intro: interleaving_left interleaving_right)

lemma interleaving_two_iff_shuffles: "interleaving [t, u] es \<longleftrightarrow> es \<in> shuffles t u"
proof (induction es arbitrary: t u)
  case Nil
  then show ?case by (auto simp: interleaving_Nil)
next
  case (Cons e es)
  then show ?case by (auto simp: interleaving_two_Cons Cons_in_shuffles_iff neq_Nil_conv)
qed

definition events_of :: "('e \<Rightarrow> 'a) \<Rightarrow> 'a \<Rightarrow> 'e list \<Rightarrow> 'e list" where
  "events_of key a es = filter (\<lambda>e. key e = a) es"

lemma events_of_simps [simp]:
  "events_of key a [] = []"
  "events_of key a (e # es) = (if key e = a then e # events_of key a es else events_of key a es)"
  "events_of key a (es @ es') = events_of key a es @ events_of key a es'"
  by (simp_all add: events_of_def)

text \<open>No task has events of a key that another task has events of.\<close>

definition apart :: "('e \<Rightarrow> 'a) \<Rightarrow> 'e list list \<Rightarrow> bool" where
  "apart key tasks \<longleftrightarrow> (\<forall>xs t ys. tasks = xs @ t # ys \<longrightarrow>
     (\<forall>e\<in>set t. events_of key (key e) (concat xs @ concat ys) = []))"

lemma apart_step:
  assumes "apart key (xs @ (e # t) # ys)"
  shows "apart key (xs @ t # ys)"
  unfolding apart_def
proof (intro allI impI ballI)
  fix us u vs d
  assume split: "xs @ t # ys = us @ u # vs" and d: "d \<in> set u"
  from split consider zs where "us = xs @ t # zs" "ys = zs @ u # vs" | "us = xs" "u = t" "vs = ys"
    | zs where "xs = us @ u # zs" "vs = zs @ t # ys"
    by (auto simp: append_eq_append_conv2 Cons_eq_append_conv append_eq_Cons_conv)
  then show "events_of key (key d) (concat us @ concat vs) = []"
  proof cases
    case 1
    then have "xs @ (e # t) # ys = (xs @ (e # t) # zs) @ u # vs" by simp
    with assms d have "events_of key (key d) (concat (xs @ (e # t) # zs) @ concat vs) = []"
      unfolding apart_def by blast
    then show ?thesis using 1 by (auto split: if_splits)
  next
    case 2
    then show ?thesis using assms d unfolding apart_def by (metis list.set_intros(2))
  next
    case 3
    then have "xs @ (e # t) # ys = us @ u # (zs @ (e # t) # ys)" by simp
    with assms d have "events_of key (key d) (concat us @ concat (zs @ (e # t) # ys)) = []"
      unfolding apart_def by blast
    then show ?thesis using 3 by (auto split: if_splits)
  qed
qed

lemma interleaving_same:
  assumes "interleaving tasks es" and "apart key tasks"
  shows "mset es = mset (concat tasks) \<and> (\<forall>a. events_of key a es = events_of key a (concat tasks))"
  using assms
proof (induction rule: interleaving.induct)
  case (all_done tasks)
  then have none: "concat tasks = []" by (simp add: concat_eq_Nil_conv)
  show ?case unfolding none by simp
next
  case (next_step xs t ys es e)
  have "events_of key (key e) (concat xs @ concat ys) = []"
    using next_step.prems unfolding apart_def by (metis list.set_intros(1))
  then show ?case
    using next_step.IH [OF apart_step [OF next_step.prems]] by auto
qed

lemma apart_distinct:
  assumes "length tasks = length keys" and "distinct keys"
    and "\<forall>i<length tasks. \<forall>e\<in>set (tasks ! i). key e = keys ! i"
  shows "apart key tasks"
  unfolding apart_def
proof (intro allI impI ballI)
  fix xs t ys e
  assume tasks: "tasks = xs @ t # ys" and e: "e \<in> set t"
  let ?n = "length xs"
  have own: "key e = keys ! ?n"
    using assms(3)[rule_format, of ?n e] tasks e by simp
  have "key d \<noteq> key e" if "u \<in> set xs \<union> set ys" "d \<in> set u" for u d
  proof -
    obtain i where i: "i < length tasks" "i \<noteq> ?n" "tasks ! i = u"
    proof (cases "u \<in> set xs")
      case True
      then obtain i where "i < ?n" "xs ! i = u" by (auto simp: in_set_conv_nth)
      then show ?thesis using that [of i] tasks by (simp add: nth_append)
    next
      case False
      with \<open>u \<in> set xs \<union> set ys\<close> obtain j where "j < length ys" "ys ! j = u" by (auto simp: in_set_conv_nth)
      then show ?thesis using that [of "Suc (?n + j)"] tasks by (simp add: nth_append)
    qed
    then have "key d = keys ! i" using assms(3) that(2) by blast
    then show ?thesis
      using own i(1,2) assms(1,2) tasks by (simp add: nth_eq_iff_index_eq)
  qed
  then show "events_of key (key e) (concat xs @ concat ys) = []"
    by (auto simp: events_of_def filter_empty_conv)
qed

section \<open>Tables and counters\<close>

definition apply_to ::
  "('e \<Rightarrow> 'a) \<Rightarrow> ('e \<Rightarrow> 'v \<Rightarrow> 'v) \<Rightarrow> ('e \<Rightarrow> 's \<Rightarrow> 's) \<Rightarrow> 'e \<Rightarrow> ('a, 'v) hmap \<times> 's \<Rightarrow> ('a, 'v) hmap \<times> 's" where
  "apply_to key entry counter e ts = (hm_modify (key e) (entry e) (fst ts), counter e (snd ts))"

lemma hm_modify_all:
  "hm_wf ps \<Longrightarrow> hm_modify k f ps = map (\<lambda>(a, p). (a, if a = k then f p else p)) ps"
proof (induction ps)
  case Nil
  then show ?case by simp
next
  case (Cons q ps)
  have "map (\<lambda>(a, p). (a, if a = k then f p else p)) ps = ps" if "k \<notin> fst ` set ps"
    using that by (intro map_idI) (auto simp: image_iff)
  with Cons show ?case by (cases q) auto
qed

lemma fold_apply_to:
  assumes "hm_wf t"
  shows "fold (apply_to key entry counter) es (t, s) =
    (map (\<lambda>(a, p). (a, fold entry (events_of key a es) p)) t, fold counter es s)"
  using assms
proof (induction es arbitrary: t s)
  case Nil
  then show ?case by simp
next
  case (Cons e es)
  have step: "apply_to key entry counter e (t, s) =
      (map (\<lambda>(a, p). (a, if a = key e then entry e p else p)) t, counter e s)"
    using Cons.prems by (simp add: apply_to_def hm_modify_all)
  have "hm_wf (map (\<lambda>(a, p). (a, if a = key e then entry e p else p)) t)"
    using Cons.prems by (simp add: comp_def split_beta)
  from Cons.IH [OF this] show ?case
    by (simp add: step comp_def split_beta)
qed

locale task_events =
  fixes key :: "'e \<Rightarrow> 'a" and entry :: "'e \<Rightarrow> 'v \<Rightarrow> 'v" and counter :: "'e \<Rightarrow> 's \<Rightarrow> 's"
  assumes counters_commute: "counter e \<circ> counter e' = counter e' \<circ> counter e"
begin

lemma order_irrelevant:
  assumes "interleaving tasks es" and "apart key tasks" and "hm_wf t"
  shows "fold (apply_to key entry counter) es (t, s) = fold (apply_to key entry counter) (concat tasks) (t, s)"
proof -
  have "fold counter es = fold counter (concat tasks)"
    by (rule fold_multiset_equiv) (use interleaving_same [OF assms(1,2)] counters_commute in auto)
  then show ?thesis
    using interleaving_same [OF assms(1,2)] by (simp add: fold_apply_to [OF assms(3)])
qed

end

end
