(* ===== verification/Validator_Messages.thy ===== *)
theory Validator_Messages
  imports Wire
begin

text \<open>
  The messages of the validator network (first part of \<open>src/validator_sync.rs\<close>): the message
  enum and its length-prefixed frames, the message envelope with its hash, and the bookkeeping of
  one peer. \<open>bincode\<close> and \<open>Sha256\<close> are arguments, \<open>SocketAddr\<close> is a type variable, and
  \<open>silver-core\<close>'s error type is represented by the one constructor the file uses.
\<close>

section \<open>Messages and frames\<close>

datatype core_error = InvalidData string

datatype validator_message =
    VM_ValidatorSetChange bytes u32
  | VM_SnapshotCertificate bytes u64 u32
  | VM_TransactionBatch bytes bytes u64 u32
  | VM_Ping u64 u64
  | VM_Pong u64 u64
  | VM_Handshake bytes u32 bytes
  | VM_Ack bytes u64

definition frame_to_bytes :: "('m \<Rightarrow> string + bytes) \<Rightarrow> 'm \<Rightarrow> core_error + bytes" where
  "frame_to_bytes serialize m =
     (case serialize m of
        Inl e \<Rightarrow> Inl (InvalidData (''Serialization error: '' @ e))
      | Inr serialized \<Rightarrow> Inr (to_be_bytes (length serialized) @ serialized))"

definition frame_from_bytes :: "string \<Rightarrow> string \<Rightarrow> (bytes \<Rightarrow> string + 'm) \<Rightarrow> bytes \<Rightarrow> core_error + 'm" where
  "frame_from_bytes too_short incomplete deserialize data =
     (if length data < 4 then Inl (InvalidData too_short)
      else let len = from_be_bytes data
           in if length data < 4 + len then Inl (InvalidData incomplete)
              else case deserialize (take len (drop 4 data)) of
                     Inl e \<Rightarrow> Inl (InvalidData (''Deserialization error: '' @ e))
                   | Inr m \<Rightarrow> Inr m)"

definition vm_to_bytes :: "(validator_message \<Rightarrow> string + bytes) \<Rightarrow> validator_message \<Rightarrow> core_error + bytes" where
  "vm_to_bytes serialize m = frame_to_bytes serialize m"

definition vm_from_bytes :: "(bytes \<Rightarrow> string + validator_message) \<Rightarrow> bytes \<Rightarrow> core_error + validator_message" where
  "vm_from_bytes deserialize data = frame_from_bytes ''Message too short'' ''Incomplete message'' deserialize data"

definition vm_hash ::
  "(validator_message \<Rightarrow> string + bytes) \<Rightarrow> (bytes \<Rightarrow> bytes) \<Rightarrow> validator_message \<Rightarrow> core_error + bytes" where
  "vm_hash serialize sha256 m =
     (case serialize m of
        Inl e \<Rightarrow> Inl (InvalidData (''Serialization error: '' @ e))
      | Inr serialized \<Rightarrow> Inr (sha256 serialized))"

fun vm_type_id :: "validator_message \<Rightarrow> u8" where
  "vm_type_id (VM_ValidatorSetChange _ _) = 1"
| "vm_type_id (VM_SnapshotCertificate _ _ _) = 2"
| "vm_type_id (VM_TransactionBatch _ _ _ _) = 3"
| "vm_type_id (VM_Ping _ _) = 4"
| "vm_type_id (VM_Pong _ _) = 5"
| "vm_type_id (VM_Handshake _ _ _) = 6"
| "vm_type_id (VM_Ack _ _) = 7"

section \<open>Envelopes\<close>

record 'a message_envelope =
  me_message_type :: u8
  me_data :: bytes
  me_timestamp :: u64
  me_sender_addr :: 'a
  me_sequence :: u64
  me_hash :: bytes
  me_compressed :: bool

definition envelope_new ::
  "(bytes \<Rightarrow> bytes) \<Rightarrow> u64 \<Rightarrow> u8 \<Rightarrow> bytes \<Rightarrow> 'a \<Rightarrow> u64 \<Rightarrow> core_error + 'a message_envelope" where
  "envelope_new sha256 timestamp message_type data sender_addr sequence =
     Inr \<lparr>me_message_type = message_type, me_data = data, me_timestamp = timestamp,
          me_sender_addr = sender_addr, me_sequence = sequence, me_hash = sha256 data,
          me_compressed = False\<rparr>"

definition envelope_to_bytes ::
  "('a message_envelope \<Rightarrow> string + bytes) \<Rightarrow> 'a message_envelope \<Rightarrow> core_error + bytes" where
  "envelope_to_bytes serialize e = frame_to_bytes serialize e"

definition envelope_from_bytes ::
  "(bytes \<Rightarrow> string + 'a message_envelope) \<Rightarrow> bytes \<Rightarrow> core_error + 'a message_envelope" where
  "envelope_from_bytes deserialize data = frame_from_bytes ''Envelope too short'' ''Incomplete envelope'' deserialize data"

definition verify_integrity :: "(bytes \<Rightarrow> bytes) \<Rightarrow> 'a message_envelope \<Rightarrow> bool" where
  "verify_integrity sha256 e \<longleftrightarrow> sha256 (me_data e) = me_hash e"

section \<open>One peer\<close>

datatype connection_state =
    CS_Disconnected
  | CS_Connecting
  | CS_Connected
  | CS_Failed
  | CS_Stale

record 'a validator_peer =
  vp_address :: 'a
  vp_validator_id :: "bytes option"
  vp_last_seen :: instant
  vp_state :: connection_state
  vp_messages_sent :: u64
  vp_messages_received :: u64
  vp_latency_ms :: u64
  vp_failed_attempts :: u32
  vp_last_error :: "string option"
  vp_version :: u32
  vp_capabilities :: bytes
  vp_bytes_sent :: u64
  vp_bytes_received :: u64

definition vpeer_new :: "instant \<Rightarrow> 'a \<Rightarrow> 'a validator_peer" where
  "vpeer_new now address =
     \<lparr>vp_address = address, vp_validator_id = None, vp_last_seen = now, vp_state = CS_Disconnected,
      vp_messages_sent = 0, vp_messages_received = 0, vp_latency_ms = 0, vp_failed_attempts = 0,
      vp_last_error = None, vp_version = 1, vp_capabilities = [], vp_bytes_sent = 0,
      vp_bytes_received = 0\<rparr>"

definition vpeer_is_stale :: "instant \<Rightarrow> 'a validator_peer \<Rightarrow> bool" where
  "vpeer_is_stale now p \<longleftrightarrow> duration_from_secs 300 < duration_since now (vp_last_seen p)"

definition vpeer_is_healthy :: "instant \<Rightarrow> 'a validator_peer \<Rightarrow> bool" where
  "vpeer_is_healthy now p \<longleftrightarrow> vp_state p = CS_Connected \<and> \<not> vpeer_is_stale now p"

definition vpeer_update_last_seen :: "instant \<Rightarrow> 'a validator_peer \<Rightarrow> 'a validator_peer" where
  "vpeer_update_last_seen now p = p\<lparr>vp_last_seen := now\<rparr>"

definition ema_latency :: "u64 \<Rightarrow> u64 \<Rightarrow> u64" where
  "ema_latency old latency_ms = (if old = 0 then latency_ms else (old * 70 + latency_ms * 30) div 100)"

definition vpeer_record_sent :: "instant \<Rightarrow> u64 \<Rightarrow> u64 \<Rightarrow> 'a validator_peer \<Rightarrow> 'a validator_peer" where
  "vpeer_record_sent now nbytes latency_ms p =
     (let p1 = vpeer_update_last_seen now
                 (p\<lparr>vp_messages_sent := vp_messages_sent p + 1, vp_bytes_sent := vp_bytes_sent p + nbytes\<rparr>)
      in p1\<lparr>vp_latency_ms := ema_latency (vp_latency_ms p1) latency_ms\<rparr>)"

definition vpeer_record_received :: "instant \<Rightarrow> u64 \<Rightarrow> 'a validator_peer \<Rightarrow> 'a validator_peer" where
  "vpeer_record_received now nbytes p =
     (vpeer_update_last_seen now
       (p\<lparr>vp_messages_received := vp_messages_received p + 1,
         vp_bytes_received := vp_bytes_received p + nbytes\<rparr>))
     \<lparr>vp_failed_attempts := 0, vp_last_error := None\<rparr>"

definition vpeer_record_failure :: "string \<Rightarrow> 'a validator_peer \<Rightarrow> 'a validator_peer" where
  "vpeer_record_failure err p =
     (let p1 = p\<lparr>vp_failed_attempts := vp_failed_attempts p + 1, vp_last_error := Some err\<rparr>
      in if 5 < vp_failed_attempts p1 then p1\<lparr>vp_state := CS_Failed\<rparr> else p1)"

definition vpeer_reset_failures :: "'a validator_peer \<Rightarrow> 'a validator_peer" where
  "vpeer_reset_failures p = p\<lparr>vp_failed_attempts := 0, vp_last_error := None\<rparr>"

section \<open>Lemmas\<close>

lemma frame_roundtrip:
  assumes "serialize m = Inr body" and "length body < 2 ^ 32" and "deserialize body = Inr m"
  shows "frame_to_bytes serialize m = Inr (to_be_bytes (length body) @ body)"
    and "frame_from_bytes ts inc deserialize (to_be_bytes (length body) @ body @ rest) = Inr m"
  using assms be.prefix_body [OF assms(2), of rest]
  by (simp_all add: frame_to_bytes_def frame_from_bytes_def be.length_enc)

lemma frame_cut:
  assumes "length body < 2 ^ 32" and "n < 4 + length body"
  shows "\<exists>e. frame_from_bytes ts inc deserialize (take n (to_be_bytes (length body) @ body)) = Inl e"
proof (cases "n < 4")
  case True
  then show ?thesis by (simp add: frame_from_bytes_def be.length_enc)
next
  case False
  let ?d = "take n (to_be_bytes (length body) @ body)"
  have "?d = to_be_bytes (length body) @ take (n - 4) body"
    using False by (simp add: be.length_enc)
  then have "from_be_bytes ?d = length body"
    using assms(1) by (simp add: be.dec_enc)
  then show ?thesis
    using assms(2) False by (simp add: frame_from_bytes_def be.length_enc)
qed

lemma ema_latency_between:
  assumes "unat old * 70 + unat new * 30 < 2 ^ 64"
  shows "min old new \<le> ema_latency old new \<and> ema_latency old new \<le> max old new"
proof (cases "old = 0")
  case True
  then show ?thesis by (simp add: ema_latency_def)
next
  case False
  have m: "unat (old * 70) = unat old * 70" "unat (new * 30) = unat new * 30"
    using assms by (simp_all add: unat_mult_lem [THEN iffD1])
  have "unat (old * 70 + new * 30) = unat old * 70 + unat new * 30"
    using assms m by (simp add: unat_add_lem [THEN iffD1])
  then have "unat (ema_latency old new) = (unat old * 70 + unat new * 30) div 100"
    using False by (simp add: ema_latency_def unat_div)
  then show ?thesis
    by (auto simp: word_le_nat_alt machine_simps min_def max_def)
qed

section \<open>Properties\<close>

text \<open>
  C9: frames. For a message that \<open>bincode\<close> serialises to less than \<open>2^32\<close> bytes and reads back,
  reading a frame gives the message, whatever bytes follow it; every proper prefix of the frame is
  rejected. Since a read from a socket is taken as one frame, this is also what is lost: a frame
  that arrives together with a second one hides it, and a frame cut in two is refused.
\<close>

theorem validator_frames:
  assumes "serialize m = Inr body" and "length body < 2 ^ 32" and "deserialize body = Inr m"
    and "vm_to_bytes serialize m = Inr frame"
  shows "length frame = 4 + length body
     \<and> vm_from_bytes deserialize (frame @ rest) = Inr m
     \<and> (n < length frame \<longrightarrow> (\<exists>e. vm_from_bytes deserialize (take n frame) = Inl e))"
proof -
  have f: "frame = to_be_bytes (length body) @ body"
    using assms(1,4) by (simp add: vm_to_bytes_def frame_to_bytes_def)
  have "vm_from_bytes deserialize (frame @ rest) = Inr m"
    using frame_roundtrip(2) [where serialize = serialize and deserialize = deserialize, OF assms(1-3)] by (simp add: vm_from_bytes_def f)
  moreover have "\<exists>e. vm_from_bytes deserialize (take n frame) = Inl e" if "n < length frame"
    using frame_cut [OF assms(2), of n _ _ deserialize] that
    by (simp add: vm_from_bytes_def f be.length_enc)
  ultimately show ?thesis by (simp add: f be.length_enc)
qed

text \<open>A serialiser for pings alone, to have a concrete frame.\<close>

definition ping_serialize :: "validator_message \<Rightarrow> string + bytes" where
  "ping_serialize m = (case m of VM_Ping t n \<Rightarrow> Inr [ucast t, ucast n] | _ \<Rightarrow> Inl ''unsupported'')"

definition ping_deserialize :: "bytes \<Rightarrow> string + validator_message" where
  "ping_deserialize bs = (case bs of [t, n] \<Rightarrow> Inr (VM_Ping (ucast t) (ucast n)) | _ \<Rightarrow> Inl ''unsupported'')"

theorem validator_frames_witness:
  "vm_from_bytes ping_deserialize ([0, 0, 0, 2, 7, 9] @ [0, 0, 0, 2, 1, 1]) = Inr (VM_Ping 7 9)
   \<and> (\<exists>e. vm_from_bytes ping_deserialize (take 5 [0, 0, 0, 2, 7, 9]) = Inl e)"
proof -
  have "ping_serialize (VM_Ping 7 9) = Inr [7, 9]" and "ping_deserialize [7, 9] = Inr (VM_Ping 7 9)"
    by (simp_all add: ping_serialize_def ping_deserialize_def)
  moreover have "vm_to_bytes ping_serialize (VM_Ping 7 9) = Inr [0, 0, 0, 2, 7, 9]"
    by (simp add: vm_to_bytes_def frame_to_bytes_def ping_serialize_def to_be_bytes_def)
  ultimately show ?thesis
    using validator_frames [of ping_serialize "VM_Ping 7 9" "[7, 9]" ping_deserialize "[0, 0, 0, 2, 7, 9]"
        "[0, 0, 0, 2, 1, 1]" 5]
    by simp
qed

text \<open>
  Envelopes are self-certifying. A new envelope passes its integrity check and survives the
  wire, given a faithful \<open>bincode\<close>; if \<open>Sha256\<close> tells two data apart, an envelope whose data were
  replaced by the other one fails the check.
\<close>

lemma envelope_integrity:
  assumes "envelope_new sha256 t ty data addr sq = Inr e"
    and "serialize e = Inr body" and "length body < 2 ^ 32" and "deserialize body = Inr e"
    and "envelope_to_bytes serialize e = Inr frame"
  shows "verify_integrity sha256 e
     \<and> envelope_from_bytes deserialize frame = Inr e
     \<and> (sha256 other \<noteq> sha256 data \<longrightarrow> \<not> verify_integrity sha256 (e\<lparr>me_data := other\<rparr>))"
proof -
  have "envelope_from_bytes deserialize frame = Inr e"
    using frame_roundtrip(1) [where serialize = serialize and deserialize = deserialize, OF assms(2-4)]
      frame_roundtrip(2) [where serialize = serialize and deserialize = deserialize and rest = "[]", OF assms(2-4)]
      assms(5)
    by (simp add: envelope_to_bytes_def envelope_from_bytes_def)
  then show ?thesis
    using assms(1) by (auto simp: envelope_new_def verify_integrity_def)
qed

lemma envelope_integrity_witness:
  "\<exists>e. envelope_new (\<lambda>d. d) 1 4 [7] () 0 = Inr e \<and> verify_integrity (\<lambda>d. d) e
     \<and> \<not> verify_integrity (\<lambda>d. d) (e\<lparr>me_data := [8]\<rparr>)"
proof -
  obtain e where e: "envelope_new (\<lambda>d. d) 1 4 [7] () 0 = Inr e"
    by (simp add: envelope_new_def)
  obtain frame where "envelope_to_bytes (\<lambda>_. Inr [1]) e = Inr frame"
    by (simp add: envelope_to_bytes_def frame_to_bytes_def)
  from envelope_integrity [OF e _ _ _ this, of "[1]" "\<lambda>_. Inr e" "[8]"] e show ?thesis by simp
qed

text \<open>
  Latency and failures of a peer. The moving average lies between the old value and the new
  measurement (as long as the products fit into 64 bits). A failure is counted and remembered, and
  a peer goes to the failed state exactly from the sixth recorded failure on; sending successfully
  does not reset the count, receiving does.
\<close>

lemma peer_bookkeeping:
  assumes "unat (vp_latency_ms p) * 70 + unat latency * 30 < 2 ^ 64"
    and "unat (vp_failed_attempts p) < 2 ^ 32 - 1"
  shows "min (vp_latency_ms p) latency \<le> vp_latency_ms (vpeer_record_sent now n latency p)
     \<and> vp_latency_ms (vpeer_record_sent now n latency p) \<le> max (vp_latency_ms p) latency
     \<and> vp_failed_attempts (vpeer_record_sent now n latency p) = vp_failed_attempts p
     \<and> vp_failed_attempts (vpeer_record_received now n p) = 0
     \<and> unat (vp_failed_attempts (vpeer_record_failure err p)) = Suc (unat (vp_failed_attempts p))
     \<and> vp_state (vpeer_record_failure err p) = (if 5 \<le> unat (vp_failed_attempts p) then CS_Failed else vp_state p)"
proof -
  have suc: "unat (vp_failed_attempts p + 1) = Suc (unat (vp_failed_attempts p))"
    using assms(2) by (intro unat_Suc_no_wrap) simp
  then have "5 < vp_failed_attempts p + 1 \<longleftrightarrow> 5 \<le> unat (vp_failed_attempts p)"
    by (auto simp: word_less_nat_alt)
  then show ?thesis
    using ema_latency_between [OF assms(1)] suc
    by (simp add: vpeer_record_sent_def vpeer_record_received_def vpeer_record_failure_def
        vpeer_update_last_seen_def Let_def)
qed

lemma peer_bookkeeping_witness:
  "vp_latency_ms (vpeer_record_sent 1 10 50 ((vpeer_new 0 ())\<lparr>vp_latency_ms := 100\<rparr>)) \<le> 100
   \<and> vp_state (vpeer_record_failure ''x'' ((vpeer_new 0 ())\<lparr>vp_latency_ms := 100\<rparr>)) = CS_Disconnected"
  using peer_bookkeeping [of "(vpeer_new 0 ())\<lparr>vp_latency_ms := 100\<rparr>" 50 1 10 "''x''"]
  by (simp add: vpeer_new_def max_def)

end
