(* ===== verification/Validator_Network.thy ===== *)
theory Validator_Network
  imports Validator_Messages Float64
begin

text \<open>
  The validator network manager (second part of \<open>src/validator_sync.rs\<close>): peers, connections,
  broadcasts with retries, and statistics.

  What the network does is an argument: the outcome of a connection attempt, of each write and of
  each read. \<open>read\<close> of nothing is \<open>RR_Data []\<close>. An operation that awaits the network releases the
  lock of the peer table in between, so \<open>connect_peer\<close> is split into the part before the network
  and the part after it; everything else runs under the lock. The semaphore is never closed, and
  the event channel and the queue of pending messages are never used by the code.
\<close>

section \<open>State\<close>

record broadcast_stats =
  vs_total_broadcasts :: u64
  vs_successful_broadcasts :: u64
  vs_failed_broadcasts :: u64
  vs_total_messages_sent :: u64
  vs_total_messages_received :: u64
  vs_avg_broadcast_latency_ms :: u64
  vs_total_bytes_sent :: u64
  vs_total_bytes_received :: u64
  vs_connection_failures :: u64
  vs_message_retries :: u64
  vs_peer_count :: u64
  vs_connected_peer_count :: u64

definition broadcast_stats_default :: broadcast_stats where
  "broadcast_stats_default =
     \<lparr>vs_total_broadcasts = 0, vs_successful_broadcasts = 0, vs_failed_broadcasts = 0,
      vs_total_messages_sent = 0, vs_total_messages_received = 0, vs_avg_broadcast_latency_ms = 0,
      vs_total_bytes_sent = 0, vs_total_bytes_received = 0, vs_connection_failures = 0,
      vs_message_retries = 0, vs_peer_count = 0, vs_connected_peer_count = 0\<rparr>"

record 'a validator_manager =
  vn_peers :: "('a, 'a validator_peer) hmap"
  vn_listening :: bool
  vn_local_addr :: 'a
  vn_max_retries :: usize
  vn_retry_backoff :: duration
  vn_message_timeout :: duration
  vn_stats :: broadcast_stats
  vn_message_sequence :: u64
  vn_validator_id :: bytes

definition manager_with_config :: "'a \<Rightarrow> bytes \<Rightarrow> usize \<Rightarrow> duration \<Rightarrow> duration \<Rightarrow> 'a validator_manager" where
  "manager_with_config local_addr validator_id max_retries retry_backoff message_timeout =
     \<lparr>vn_peers = [], vn_listening = False, vn_local_addr = local_addr, vn_max_retries = max_retries,
      vn_retry_backoff = retry_backoff, vn_message_timeout = message_timeout,
      vn_stats = broadcast_stats_default, vn_message_sequence = 0, vn_validator_id = validator_id\<rparr>"

definition manager_new :: "'a \<Rightarrow> bytes \<Rightarrow> 'a validator_manager" where
  "manager_new local_addr validator_id =
     \<lparr>vn_peers = [], vn_listening = False, vn_local_addr = local_addr, vn_max_retries = 3,
      vn_retry_backoff = duration_from_millis 100, vn_message_timeout = duration_from_secs 5,
      vn_stats = broadcast_stats_default, vn_message_sequence = 0, vn_validator_id = validator_id\<rparr>"

text \<open>\<open>Default\<close>: \<open>parse\<close> is \<open>SocketAddr::from_str\<close>, whose failure would panic.\<close>

definition manager_default :: "(string \<Rightarrow> 'a option) \<Rightarrow> 'a validator_manager option" where
  "manager_default parse = map_option (\<lambda>addr. manager_new addr (replicate 32 0)) (parse ''127.0.0.1:0'')"

record broadcast_result =
  br_total_peers :: usize
  br_successful :: usize
  br_failed :: usize
  br_avg_latency_ms :: u64
  br_min_latency_ms :: u64
  br_max_latency_ms :: u64
  br_total_bytes_sent :: u64
  br_duration_ms :: u64

definition modify_vpeer ::
  "'a \<Rightarrow> ('a validator_peer \<Rightarrow> 'a validator_peer) \<Rightarrow> 'a validator_manager \<Rightarrow> 'a validator_manager" where
  "modify_vpeer address f m = m\<lparr>vn_peers := hm_modify address f (vn_peers m)\<rparr>"

definition modify_vstats ::
  "(broadcast_stats \<Rightarrow> broadcast_stats) \<Rightarrow> 'a validator_manager \<Rightarrow> 'a validator_manager" where
  "modify_vstats f m = m\<lparr>vn_stats := f (vn_stats m)\<rparr>"

section \<open>Peers\<close>

definition start_listener :: "string + unit \<Rightarrow> 'a validator_manager \<Rightarrow> (core_error + unit) \<times> 'a validator_manager" where
  "start_listener bound m =
     (case bound of
        Inl e \<Rightarrow> (Inl (InvalidData (''Failed to bind listener: '' @ e)), m)
      | Inr _ \<Rightarrow> (Inr (), m\<lparr>vn_listening := True\<rparr>))"

definition vn_add_peer ::
  "('a \<Rightarrow> string) \<Rightarrow> instant \<Rightarrow> 'a \<Rightarrow> 'a validator_manager \<Rightarrow> (core_error + unit) \<times> 'a validator_manager" where
  "vn_add_peer show_addr now address m =
     (if hm_has (vn_peers m) address
      then (Inl (InvalidData (''Peer '' @ show_addr address @ '' already exists'')), m)
      else (Inr (), modify_vstats (\<lambda>s. s\<lparr>vs_peer_count := vs_peer_count s + 1\<rparr>)
                      (m\<lparr>vn_peers := hm_put address (vpeer_new now address) (vn_peers m)\<rparr>)))"

definition vn_remove_peer ::
  "('a \<Rightarrow> string) \<Rightarrow> 'a \<Rightarrow> 'a validator_manager \<Rightarrow> (core_error + unit) \<times> 'a validator_manager" where
  "vn_remove_peer show_addr address m =
     (if hm_has (vn_peers m) address
      then (Inr (), modify_vstats (\<lambda>s. s\<lparr>vs_peer_count := sat_sub (vs_peer_count s) 1\<rparr>)
                      (m\<lparr>vn_peers := hm_del address (vn_peers m)\<rparr>))
      else (Inl (InvalidData (''Peer '' @ show_addr address @ '' not found'')), m))"

definition disconnect_peer ::
  "('a \<Rightarrow> string) \<Rightarrow> 'a \<Rightarrow> 'a validator_manager \<Rightarrow> (core_error + unit) \<times> 'a validator_manager" where
  "disconnect_peer show_addr address m =
     (case hm_get (vn_peers m) address of
        None \<Rightarrow> (Inl (InvalidData (''Peer '' @ show_addr address @ '' not found'')), m)
      | Some peer \<Rightarrow>
          (Inr (), modify_vpeer address (\<lambda>p. p\<lparr>vp_state := CS_Disconnected\<rparr>)
             (if vp_state peer = CS_Connected
              then modify_vstats (\<lambda>s. s\<lparr>vs_connected_peer_count := sat_sub (vs_connected_peer_count s) 1\<rparr>) m
              else m)))"

definition get_peer_count :: "'a validator_manager \<Rightarrow> usize" where
  "get_peer_count m = hm_size (vn_peers m)"

definition get_connected_peer_count :: "'a validator_manager \<Rightarrow> usize" where
  "get_connected_peer_count m = length (filter (\<lambda>(_, p). vp_state p = CS_Connected) (vn_peers m))"

definition get_healthy_peer_count :: "instant \<Rightarrow> 'a validator_manager \<Rightarrow> usize" where
  "get_healthy_peer_count now m = length (filter (\<lambda>(_, p). vpeer_is_healthy now p) (vn_peers m))"

definition get_peer_info ::
  "('a \<Rightarrow> string) \<Rightarrow> 'a \<Rightarrow> 'a validator_manager \<Rightarrow> core_error + 'a validator_peer" where
  "get_peer_info show_addr address m =
     (case hm_get (vn_peers m) address of
        None \<Rightarrow> Inl (InvalidData (''Peer '' @ show_addr address @ '' not found''))
      | Some p \<Rightarrow> Inr p)"

definition get_all_peers :: "'a validator_manager \<Rightarrow> 'a validator_peer list" where
  "get_all_peers m = map snd (vn_peers m)"

definition get_healthy_peers :: "instant \<Rightarrow> 'a validator_manager \<Rightarrow> 'a validator_peer list" where
  "get_healthy_peers now m = filter (vpeer_is_healthy now) (map snd (vn_peers m))"

definition cleanup_stale_peers :: "instant \<Rightarrow> 'a validator_manager \<Rightarrow> usize \<times> 'a validator_manager" where
  "cleanup_stale_peers now m =
     (let kept = hm_retain (\<lambda>_ p. \<not> vpeer_is_stale now p) (vn_peers m)
      in (hm_size (vn_peers m) - hm_size kept,
          modify_vstats (\<lambda>s. s\<lparr>vs_peer_count := word_of_nat (hm_size kept)\<rparr>) (m\<lparr>vn_peers := kept\<rparr>)))"

definition vn_get_stats :: "'a validator_manager \<Rightarrow> broadcast_stats" where
  "vn_get_stats m = (vn_stats m)\<lparr>vs_peer_count := word_of_nat (get_peer_count m),
                                 vs_connected_peer_count := word_of_nat (get_connected_peer_count m)\<rparr>"

definition vn_reset_stats :: "'a validator_manager \<Rightarrow> 'a validator_manager" where
  "vn_reset_stats m = m\<lparr>vn_stats := broadcast_stats_default\<rparr>"

definition next_sequence :: "'a validator_manager \<Rightarrow> u64 \<times> 'a validator_manager" where
  "next_sequence m = (vn_message_sequence m + 1, m\<lparr>vn_message_sequence := vn_message_sequence m + 1\<rparr>)"

section \<open>Connections\<close>

datatype read_result =
    RR_Data bytes
  | RR_Error string
  | RR_Timeout

text \<open>A TCP connection attempt; after it the result of the write (an error, if any) and the read.\<close>

datatype connect_result =
    CN_Error string
  | CN_Timeout
  | CN_Connected "string option" read_result

definition own_handshake :: "'a validator_manager \<Rightarrow> validator_message" where
  "own_handshake m = VM_Handshake (vn_validator_id m) 1 [1, 2, 3, 4, 5, 6, 7]"

text \<open>Taking over the identity a peer sent.\<close>

definition register_handshake :: "bytes \<Rightarrow> u32 \<Rightarrow> bytes \<Rightarrow> 'a validator_peer \<Rightarrow> 'a validator_peer" where
  "register_handshake peer_id version capabilities p =
     vpeer_reset_failures (p\<lparr>vp_validator_id := Some peer_id, vp_version := version,
       vp_capabilities := capabilities, vp_state := CS_Connected\<rparr>)"

definition fail_peer :: "string \<Rightarrow> 'a validator_peer \<Rightarrow> 'a validator_peer" where
  "fail_peer err p = vpeer_record_failure err (p\<lparr>vp_state := CS_Failed\<rparr>)"

definition connect_begin ::
  "('a \<Rightarrow> string) \<Rightarrow> 'a \<Rightarrow> 'a validator_manager \<Rightarrow> (core_error + unit) \<times> 'a validator_manager" where
  "connect_begin show_addr address m =
     (if hm_has (vn_peers m) address
      then (Inr (), modify_vpeer address (\<lambda>p. p\<lparr>vp_state := CS_Connecting\<rparr>) m)
      else (Inl (InvalidData (''Peer '' @ show_addr address @ '' not found'')), m))"

definition connect_reply ::
  "(bytes \<Rightarrow> string + validator_message) \<Rightarrow> read_result \<Rightarrow> 'a \<Rightarrow> 'a validator_manager \<Rightarrow> 'a validator_manager"
  where
  "connect_reply deserialize reply address m =
     (case reply of
        RR_Data (b # bs) \<Rightarrow>
          (case vm_from_bytes deserialize (b # bs) of
             Inr (VM_Handshake peer_id version capabilities) \<Rightarrow>
               (if hm_has (vn_peers m) address
                then modify_vstats (\<lambda>s. s\<lparr>vs_connected_peer_count := vs_connected_peer_count s + 1\<rparr>)
                       (modify_vpeer address (register_handshake peer_id version capabilities) m)
                else m)
           | _ \<Rightarrow> m)
      | _ \<Rightarrow> modify_vpeer address (fail_peer ''Handshake response timeout'') m)"

definition count_connection_failure :: "'a \<Rightarrow> string \<Rightarrow> 'a validator_manager \<Rightarrow> 'a validator_manager" where
  "count_connection_failure address err m =
     (if hm_has (vn_peers m) address
      then modify_vstats (\<lambda>s. s\<lparr>vs_connection_failures := vs_connection_failures s + 1\<rparr>)
             (modify_vpeer address (fail_peer err) m)
      else m)"

definition connect_finish ::
  "(validator_message \<Rightarrow> string + bytes) \<Rightarrow> (bytes \<Rightarrow> string + validator_message) \<Rightarrow> connect_result
     \<Rightarrow> 'a \<Rightarrow> 'a validator_manager \<Rightarrow> (core_error + unit) \<times> 'a validator_manager" where
  "connect_finish serialize deserialize outcome address m =
     (case outcome of
        CN_Connected write reply \<Rightarrow>
          (case vm_to_bytes serialize (own_handshake m) of
             Inl e \<Rightarrow> (Inl e, m)
           | Inr _ \<Rightarrow>
               (case write of
                  Some e \<Rightarrow> (Inl (InvalidData (''Failed to send handshake: '' @ e)),
                             modify_vpeer address (fail_peer (''Handshake write failed: '' @ e)) m)
                | None \<Rightarrow> (Inr (), connect_reply deserialize reply address m)))
      | CN_Error e \<Rightarrow> (Inl (InvalidData (''Failed to connect to peer: '' @ e)),
                       count_connection_failure address (''Connection failed: '' @ e) m)
      | CN_Timeout \<Rightarrow> (Inl (InvalidData ''Connection timeout''),
                       count_connection_failure address ''Connection timeout'' m))"

definition connect_peer ::
  "('a \<Rightarrow> string) \<Rightarrow> (validator_message \<Rightarrow> string + bytes) \<Rightarrow> (bytes \<Rightarrow> string + validator_message)
     \<Rightarrow> connect_result \<Rightarrow> 'a \<Rightarrow> 'a validator_manager \<Rightarrow> (core_error + unit) \<times> 'a validator_manager" where
  "connect_peer show_addr serialize deserialize outcome address m =
     (case connect_begin show_addr address m of
        (Inl e, m1) \<Rightarrow> (Inl e, m1)
      | (Inr _, m1) \<Rightarrow> connect_finish serialize deserialize outcome address m1)"

definition failed_peers :: "'a validator_manager \<Rightarrow> 'a list" where
  "failed_peers m = [addr. (addr, p) \<leftarrow> vn_peers m, vp_state p = CS_Failed \<and> vp_failed_attempts p < 10]"

fun reconnect_all ::
  "('a \<Rightarrow> string) \<Rightarrow> (validator_message \<Rightarrow> string + bytes) \<Rightarrow> (bytes \<Rightarrow> string + validator_message)
     \<Rightarrow> ('a \<Rightarrow> connect_result) \<Rightarrow> 'a list \<Rightarrow> 'a validator_manager \<Rightarrow> usize \<times> 'a validator_manager" where
  "reconnect_all sa ser de outcomes [] m = (0, m)"
| "reconnect_all sa ser de outcomes (addr # addrs) m =
     (let (r, m1) = connect_peer sa ser de (outcomes addr) addr m;
          (n, m2) = reconnect_all sa ser de outcomes addrs m1
      in (case r of Inr _ \<Rightarrow> n + 1 | Inl _ \<Rightarrow> n, m2))"

definition reconnect_failed_peers ::
  "('a \<Rightarrow> string) \<Rightarrow> (validator_message \<Rightarrow> string + bytes) \<Rightarrow> (bytes \<Rightarrow> string + validator_message)
     \<Rightarrow> ('a \<Rightarrow> connect_result) \<Rightarrow> 'a validator_manager \<Rightarrow> usize \<times> 'a validator_manager" where
  "reconnect_failed_peers sa ser de outcomes m = reconnect_all sa ser de outcomes (failed_peers m) m"

text \<open>The loop that receives messages; an empty list of reads is a connection still open.\<close>

fun receive_loop ::
  "(bytes \<Rightarrow> string + validator_message) \<Rightarrow> 'a \<Rightarrow> (instant \<times> read_result) list \<Rightarrow> 'a validator_manager
     \<Rightarrow> 'a validator_manager" where
  "receive_loop de addr [] m = m"
| "receive_loop de addr ((now, RR_Data bs) # rest) m =
     (if bs = [] then modify_vpeer addr (\<lambda>p. p\<lparr>vp_state := CS_Disconnected\<rparr>) m
      else receive_loop de addr rest
             (case vm_from_bytes de bs of
                Inl _ \<Rightarrow> m
              | Inr _ \<Rightarrow>
                  modify_vstats (\<lambda>s. s\<lparr>vs_total_messages_received := vs_total_messages_received s + 1,
                      vs_total_bytes_received := vs_total_bytes_received s + word_of_nat (length bs)\<rparr>)
                    (modify_vpeer addr (vpeer_record_received now (word_of_nat (length bs))) m)))"
| "receive_loop de addr ((now, RR_Error e) # rest) m = modify_vpeer addr (\<lambda>p. p\<lparr>vp_state := CS_Disconnected\<rparr>) m"
| "receive_loop de addr ((now, RR_Timeout) # rest) m = modify_vpeer addr (\<lambda>p. p\<lparr>vp_state := CS_Disconnected\<rparr>) m"

definition handle_peer_connection ::
  "(validator_message \<Rightarrow> string + bytes) \<Rightarrow> (bytes \<Rightarrow> string + validator_message) \<Rightarrow> string option
     \<Rightarrow> read_result \<Rightarrow> (instant \<times> read_result) list \<Rightarrow> 'a \<Rightarrow> 'a validator_manager
     \<Rightarrow> (core_error + unit) \<times> 'a validator_manager" where
  "handle_peer_connection serialize deserialize write reply reads peer_addr m =
     (case vm_to_bytes serialize (own_handshake m) of
        Inl e \<Rightarrow> (Inl e, m)
      | Inr _ \<Rightarrow>
          (case write of
             Some e \<Rightarrow> (Inl (InvalidData (''Failed to send handshake: '' @ e)), m)
           | None \<Rightarrow>
               (case reply of
                  RR_Timeout \<Rightarrow> (Inl (InvalidData ''Handshake timeout''), m)
                | RR_Error e \<Rightarrow> (Inl (InvalidData (''Failed to read handshake: '' @ e)), m)
                | RR_Data bs \<Rightarrow>
                    (if bs = [] then (Inl (InvalidData ''Peer closed connection''), m)
                     else case vm_from_bytes deserialize bs of
                            Inl e \<Rightarrow> (Inl e, m)
                          | Inr msg \<Rightarrow>
                              (Inr (), receive_loop deserialize peer_addr reads
                                 (case msg of
                                    VM_Handshake peer_id version capabilities \<Rightarrow>
                                      modify_vpeer peer_addr (register_handshake peer_id version capabilities) m
                                  | _ \<Rightarrow> m))))))"

section \<open>Sending\<close>

text \<open>\<open>Duration::mul_f64\<close>: through seconds as a float, rounded to the nearest nanosecond.\<close>

definition as_secs_f64 :: "duration \<Rightarrow> f64" where
  "as_secs_f64 d = f64_add (f64_of_nat (d div 1000000000)) (f64_div (f64_of_nat (d mod 1000000000)) 1000000000)"

definition from_secs_f64 :: "f64 \<Rightarrow> duration" where
  "from_secs_f64 x = nat (rne (x * 1000000000))"

definition duration_mul_f64 :: "duration \<Rightarrow> f64 \<Rightarrow> duration" where
  "duration_mul_f64 d x = from_secs_f64 (f64_mul x (as_secs_f64 d))"

definition next_send_backoff :: "duration \<Rightarrow> duration" where
  "next_send_backoff backoff = min (duration_mul_f64 backoff 2) (duration_from_secs 5)"

text \<open>What the network does in one attempt; a success has its latency and the time it is recorded.\<close>

datatype attempt =
    AT_ConnectTimeout
  | AT_ConnectError string
  | AT_SendTimeout
  | AT_SendError string
  | AT_Sent u64 instant

definition max_message_len :: nat where
  "max_message_len = 10 * 1024 * 1024"

definition attempt_result ::
  "(core_error \<Rightarrow> string) \<Rightarrow> (validator_message \<Rightarrow> string + bytes) \<Rightarrow> validator_message \<Rightarrow> attempt
     \<Rightarrow> core_error + u64 \<times> instant \<times> u64" where
  "attempt_result show_core serialize message a =
     (case vm_to_bytes serialize message of
        Inl e \<Rightarrow> Inl (InvalidData (''Failed to serialize message: '' @ show_core e))
      | Inr data \<Rightarrow>
          (if max_message_len < length data
           then Inl (InvalidData (''Message too large: '' @ show_nat (length data) @ '' bytes (max 10MB)''))
           else case a of
                  AT_ConnectTimeout \<Rightarrow> Inl (InvalidData ''Connection timeout'')
                | AT_ConnectError e \<Rightarrow> Inl (InvalidData (''Failed to connect: '' @ e))
                | AT_SendTimeout \<Rightarrow> Inl (InvalidData ''Send timeout'')
                | AT_SendError e \<Rightarrow> Inl (InvalidData (''Failed to send: '' @ e))
                | AT_Sent latency now \<Rightarrow> Inr (latency, now, word_of_nat (length data))))"

definition record_success :: "'a \<Rightarrow> u64 \<Rightarrow> instant \<Rightarrow> u64 \<Rightarrow> 'a validator_manager \<Rightarrow> 'a validator_manager" where
  "record_success addr latency now nbytes m =
     modify_vstats (\<lambda>s. s\<lparr>vs_total_messages_sent := vs_total_messages_sent s + 1\<rparr>)
       (modify_vpeer addr (vpeer_record_sent now nbytes latency) m)"

definition count_retry :: "'a validator_manager \<Rightarrow> 'a validator_manager" where
  "count_retry = modify_vstats (\<lambda>s. s\<lparr>vs_message_retries := vs_message_retries s + 1\<rparr>)"

definition give_up ::
  "(core_error \<Rightarrow> string) \<Rightarrow> 'a \<Rightarrow> core_error option \<Rightarrow> 'a validator_manager
     \<Rightarrow> (core_error + u64 \<times> u64) \<times> 'a validator_manager" where
  "give_up show_core addr last_error m =
     (Inl (case last_error of Some e \<Rightarrow> e | None \<Rightarrow> InvalidData ''Unknown send error''),
      modify_vpeer addr (vpeer_record_failure
        (case last_error of Some e \<Rightarrow> show_core e | None \<Rightarrow> ''Unknown error'')) m)"

text \<open>
  The loop \<open>for attempt in 0..max_retries\<close> with \<open>left\<close> attempts to go; besides the result it
  returns the sleeps between the attempts.
\<close>

fun send_attempts ::
  "(nat \<Rightarrow> core_error + u64 \<times> instant \<times> u64) \<Rightarrow> (core_error \<Rightarrow> string) \<Rightarrow> 'a \<Rightarrow> nat \<Rightarrow> nat \<Rightarrow> duration
     \<Rightarrow> core_error option \<Rightarrow> 'a validator_manager
     \<Rightarrow> (core_error + u64 \<times> u64) \<times> duration list \<times> 'a validator_manager" where
  "send_attempts net sc addr max_retries 0 backoff last_error m =
     (let (r, m') = give_up sc addr last_error m in (r, [], m'))"
| "send_attempts net sc addr max_retries (Suc left) backoff last_error m =
     (let attempt = max_retries - Suc left
      in case net attempt of
           Inr (latency, now, nbytes) \<Rightarrow> (Inr (latency, nbytes), [], record_success addr latency now nbytes m)
         | Inl e \<Rightarrow>
             (if attempt < max_retries - 1
              then let (r, sleeps, m') = send_attempts net sc addr max_retries left (next_send_backoff backoff)
                                           (Some e) (count_retry m)
                   in (r, backoff # sleeps, m')
              else send_attempts net sc addr max_retries left backoff (Some e) (count_retry m)))"

definition send_message_with_retry ::
  "(core_error \<Rightarrow> string) \<Rightarrow> (validator_message \<Rightarrow> string + bytes) \<Rightarrow> (nat \<Rightarrow> attempt) \<Rightarrow> 'a
     \<Rightarrow> validator_message \<Rightarrow> 'a validator_manager
     \<Rightarrow> (core_error + u64 \<times> u64) \<times> duration list \<times> 'a validator_manager" where
  "send_message_with_retry show_core serialize net addr message m =
     send_attempts (\<lambda>i. attempt_result show_core serialize message (net i)) show_core addr
       (vn_max_retries m) (vn_max_retries m) (vn_retry_backoff m) None m"

datatype real_outcome =
    RO_ConnectTimeout
  | RO_ConnectError string
  | RO_SendTimeout
  | RO_SendError string
  | RO_FlushTimeout
  | RO_FlushError string
  | RO_Flushed read_result

definition send_message_real ::
  "(core_error \<Rightarrow> string) \<Rightarrow> (validator_message \<Rightarrow> string + bytes) \<Rightarrow> ('a message_envelope \<Rightarrow> string + bytes)
     \<Rightarrow> (bytes \<Rightarrow> bytes) \<Rightarrow> u64 \<Rightarrow> real_outcome \<Rightarrow> 'a \<Rightarrow> validator_message \<Rightarrow> 'a validator_manager
     \<Rightarrow> (core_error + u64) \<times> 'a validator_manager" where
  "send_message_real show_core serialize serialize_envelope sha256 timestamp outcome peer_addr message m =
     (case vm_to_bytes serialize message of
        Inl e \<Rightarrow> (Inl (InvalidData (''Failed to serialize message: '' @ show_core e)), m)
      | Inr data \<Rightarrow>
          (if max_message_len < length data
           then (Inl (InvalidData (''Message too large: '' @ show_nat (length data) @ '' bytes (max 10MB)'')), m)
           else
             let sequence = vn_message_sequence m;
                 m1 = m\<lparr>vn_message_sequence := sat_add (vn_message_sequence m) 1\<rparr>
             in case envelope_new sha256 timestamp (vm_type_id message) data peer_addr sequence of
                  Inl e \<Rightarrow> (Inl e, m1)
                | Inr envelope \<Rightarrow>
                    (case envelope_to_bytes serialize_envelope envelope of
                       Inl e \<Rightarrow> (Inl e, m1)
                     | Inr envelope_data \<Rightarrow>
                         (case outcome of
                            RO_ConnectTimeout \<Rightarrow> (Inl (InvalidData ''Connection timeout''), m1)
                          | RO_ConnectError e \<Rightarrow> (Inl (InvalidData (''Failed to connect: '' @ e)), m1)
                          | RO_SendTimeout \<Rightarrow> (Inl (InvalidData ''Send timeout''), m1)
                          | RO_SendError e \<Rightarrow> (Inl (InvalidData (''Failed to send: '' @ e)), m1)
                          | RO_FlushTimeout \<Rightarrow> (Inl (InvalidData ''Flush timeout''), m1)
                          | RO_FlushError e \<Rightarrow> (Inl (InvalidData (''Failed to flush: '' @ e)), m1)
                          | RO_Flushed _ \<Rightarrow> (Inr (word_of_nat (length envelope_data)), m1)))))"

section \<open>Broadcasts\<close>

definition connected_addresses :: "'a validator_manager \<Rightarrow> 'a list" where
  "connected_addresses m = [addr. (addr, p) \<leftarrow> vn_peers m, vp_state p = CS_Connected]"

text \<open>The tasks, one for each connected peer; \<open>None\<close> is a task that did not finish (a \<open>JoinError\<close>).\<close>

fun send_all ::
  "(core_error \<Rightarrow> string) \<Rightarrow> (validator_message \<Rightarrow> string + bytes) \<Rightarrow> ('a \<Rightarrow> (nat \<Rightarrow> attempt) option)
     \<Rightarrow> validator_message \<Rightarrow> 'a list \<Rightarrow> 'a validator_manager
     \<Rightarrow> (u64 \<times> u64) option list \<times> 'a validator_manager" where
  "send_all sc ser net message [] m = ([], m)"
| "send_all sc ser net message (addr # addrs) m =
     (let (r, m1) = (case net addr of
                       None \<Rightarrow> (None, m)
                     | Some n \<Rightarrow>
                         (case send_message_with_retry sc ser n addr message m of
                            (Inl _, _, m') \<Rightarrow> (None, m')
                          | (Inr ok, _, m') \<Rightarrow> (Some ok, m')));
          (rs, m2) = send_all sc ser net message addrs m1
      in (r # rs, m2))"

record tally =
  ta_successful :: usize
  ta_failed :: usize
  ta_total_latency :: u64
  ta_min_latency :: u64
  ta_max_latency :: u64
  ta_total_bytes_sent :: u64

definition tally_start :: tally where
  "tally_start = \<lparr>ta_successful = 0, ta_failed = 0, ta_total_latency = 0, ta_min_latency = - 1,
                  ta_max_latency = 0, ta_total_bytes_sent = 0\<rparr>"

definition tally_step :: "tally \<Rightarrow> (u64 \<times> u64) option \<Rightarrow> tally" where
  "tally_step t r =
     (case r of
        Some (latency_ms, bytes_sent) \<Rightarrow>
          t\<lparr>ta_successful := ta_successful t + 1, ta_total_latency := ta_total_latency t + latency_ms,
            ta_min_latency := min (ta_min_latency t) latency_ms,
            ta_max_latency := max (ta_max_latency t) latency_ms,
            ta_total_bytes_sent := ta_total_bytes_sent t + bytes_sent\<rparr>
      | None \<Rightarrow> t\<lparr>ta_failed := ta_failed t + 1\<rparr>)"

definition tally_result :: "nat \<Rightarrow> u64 \<Rightarrow> tally \<Rightarrow> broadcast_result" where
  "tally_result total_peers duration_ms t =
     \<lparr>br_total_peers = total_peers, br_successful = ta_successful t, br_failed = ta_failed t,
      br_avg_latency_ms = (if 0 < ta_successful t
                           then ta_total_latency t div word_of_nat (ta_successful t) else 0),
      br_min_latency_ms = (if ta_min_latency t = - 1 then 0 else ta_min_latency t),
      br_max_latency_ms = ta_max_latency t,
      br_total_bytes_sent = ta_total_bytes_sent t, br_duration_ms = duration_ms\<rparr>"

definition finish_broadcast :: "broadcast_result \<Rightarrow> 'a validator_manager \<Rightarrow> 'a validator_manager" where
  "finish_broadcast r = modify_vstats (\<lambda>s. s\<lparr>vs_total_broadcasts := vs_total_broadcasts s + 1,
     vs_successful_broadcasts := vs_successful_broadcasts s + word_of_nat (br_successful r),
     vs_failed_broadcasts := vs_failed_broadcasts s + word_of_nat (br_failed r),
     vs_avg_broadcast_latency_ms := br_avg_latency_ms r,
     vs_total_bytes_sent := vs_total_bytes_sent s + br_total_bytes_sent r\<rparr>)"

definition broadcast_message ::
  "(core_error \<Rightarrow> string) \<Rightarrow> (validator_message \<Rightarrow> string + bytes) \<Rightarrow> ('a \<Rightarrow> (nat \<Rightarrow> attempt) option)
     \<Rightarrow> u64 \<Rightarrow> validator_message \<Rightarrow> 'a validator_manager
     \<Rightarrow> (core_error + broadcast_result) \<times> 'a validator_manager" where
  "broadcast_message show_core serialize net duration_ms message m =
     (let connected = connected_addresses m
      in if connected = []
         then (Inr \<lparr>br_total_peers = 0, br_successful = 0, br_failed = 0, br_avg_latency_ms = 0,
                    br_min_latency_ms = 0, br_max_latency_ms = 0, br_total_bytes_sent = 0,
                    br_duration_ms = duration_ms\<rparr>, m)
         else let (results, m1) = send_all show_core serialize net message connected m;
                  r = tally_result (length connected) duration_ms (foldl tally_step tally_start results)
              in (Inr r, finish_broadcast r m1))"

definition broadcast_validator_set_change where
  "broadcast_validator_set_change sc ser net duration_ms data m =
     broadcast_message sc ser net duration_ms (VM_ValidatorSetChange data 1) m"

definition broadcast_snapshot_certificate where
  "broadcast_snapshot_certificate sc ser net duration_ms data height m =
     broadcast_message sc ser net duration_ms (VM_SnapshotCertificate data height 1) m"

definition broadcast_transaction_batch where
  "broadcast_transaction_batch sc ser net duration_ms batch_id data sequence m =
     broadcast_message sc ser net duration_ms (VM_TransactionBatch batch_id data sequence 1) m"

section \<open>The backoff\<close>

lemma rne_close:
  assumes "\<bar>y - of_int n\<bar> < 1 / 2"
  shows "rne y = n"
proof -
  have "\<bar>(of_int (rne y) :: rat) - of_int n\<bar> < 1"
    using rne_error [of y] assms by linarith
  then have "\<bar>(of_int (rne y - n) :: rat)\<bar> < 1" by simp
  then have "\<bar>rne y - n\<bar> < 1" by linarith
  then show ?thesis by simp
qed

text \<open>Up to more than a day, doubling through a float is exact.\<close>

lemma duration_mul_f64_2:
  assumes "d \<le> 10 ^ 14"
  shows "duration_mul_f64 d 2 = 2 * d"
proof -
  define s n where "s = d div 1000000000" and "n = d mod 1000000000"
  have d: "d = s * 1000000000 + n" by (simp add: s_def n_def)
  have s: "s \<le> 10 ^ 5" and n: "n < 1000000000"
    using assms by (simp_all add: s_def n_def div_le_mono [of d "10 ^ 14" 1000000000, simplified])
  define S N where "S = (of_nat s :: rat)" and "N = (of_nat n :: rat)"
  have SN: "0 \<le> S" "S \<le> 100000" "0 \<le> N" "N < 1000000000"
    using s n by (simp_all add: S_def N_def)
  have fs: "f64_of_nat s = S" "f64_of_nat n = N"
    using s n by (simp_all add: f64_of_nat_exact S_def N_def)
  define a where "a = rnd64 (N / 1000000000)"
  define b where "b = rnd64 (S + a)"
  define c where "c = rnd64 (2 * b)"
  have a0: "0 \<le> a" using SN by (simp add: a_def)
  have b0: "0 \<le> b" using SN a0 by (simp add: b_def)
  have a: "\<bar>a - N / 1000000000\<bar> \<le> (N / 1000000000) / 2 ^ 53"
    unfolding a_def using SN by (intro rnd64_close) simp
  have b: "\<bar>b - (S + a)\<bar> \<le> (S + a) / 2 ^ 53"
    unfolding b_def using SN a0 by (intro rnd64_close) simp
  have c: "\<bar>c - 2 * b\<bar> \<le> (2 * b) / 2 ^ 53"
    unfolding c_def using b0 by (intro rnd64_close) simp
  have "duration_mul_f64 d 2 = nat (rne (c * 1000000000))"
    unfolding duration_mul_f64_def from_secs_f64_def as_secs_f64_def f64_mul_def f64_add_def f64_div_def
      s_def [symmetric] n_def [symmetric] fs a_def [symmetric] b_def [symmetric] c_def [symmetric] ..
  moreover have "rne (c * 1000000000) = int (2 * d)"
  proof (rule rne_close)
    have "(of_int (int (2 * d)) :: rat) = 2 * (S * 1000000000 + N)"
      by (simp add: d S_def N_def)
    moreover have "\<bar>c * 1000000000 - 2 * (S * 1000000000 + N)\<bar> < 1 / 2"
    proof -
      define M where "M = N / 1000000000"
      have M: "0 \<le> M" "M < 1" using SN by (simp_all add: M_def)
      define u where "u = (1 :: rat) / 2 ^ 53"
      have u: "0 \<le> u" "100002 * u \<le> 1" "u \<le> 1" by (simp_all add: u_def)
      have per: "x / 2 ^ 53 = x * u" for x by (simp add: u_def)
      have "M * u \<le> 1 * u" using M u by (intro mult_right_mono) simp_all
      then have a1: "\<bar>a - M\<bar> \<le> u" using a unfolding M_def [symmetric] per by linarith
      note a1 = order_trans [OF abs_ge_self a1] order_trans [OF abs_ge_minus_self a1]
      have a2: "a \<le> 2" using a1 u M by linarith
      have "(S + a) * u \<le> 100002 * u"
        using SN a2 u by (intro mult_right_mono) simp_all
      then have b1: "\<bar>b - (S + a)\<bar> \<le> 100002 * u" using b unfolding per by linarith
      note b1 = order_trans [OF abs_ge_self b1] order_trans [OF abs_ge_minus_self b1]
      have b2: "b \<le> 100003" using b1 u SN a2 by linarith
      have "(2 * b) * u \<le> 200006 * u"
        using b2 u by (intro mult_right_mono) simp_all
      then have c1: "\<bar>c - 2 * b\<bar> \<le> 200006 * u" using c unfolding per by linarith
      note c1 = order_trans [OF abs_ge_self c1] order_trans [OF abs_ge_minus_self c1]
      have "\<bar>c - 2 * (S + M)\<bar> \<le> 400012 * u"
        using a1 b1 c1 by (intro abs_leI) (simp_all add: algebra_simps)
      then have "\<bar>c - 2 * (S + M)\<bar> * 1000000000 \<le> (400012 * u) * 1000000000"
        by (rule mult_right_mono) simp
      also have "\<dots> < 1 / 2" by (simp add: u_def)
      finally have e: "\<bar>c - 2 * (S + M)\<bar> * 1000000000 < 1 / 2" .
      have "c * 1000000000 - 2 * (S * 1000000000 + N) = (c - 2 * (S + M)) * 1000000000"
        by (simp add: M_def algebra_simps)
      then have "\<bar>c * 1000000000 - 2 * (S * 1000000000 + N)\<bar> = \<bar>c - 2 * (S + M)\<bar> * 1000000000"
        by (simp only: abs_mult abs_numeral)
      with e show ?thesis by simp
    qed
    ultimately show "\<bar>c * 1000000000 - of_int (int (2 * d))\<bar> < 1 / 2" by simp
  qed
  ultimately show ?thesis by simp
qed

lemma next_send_backoff_eq:
  "b \<le> duration_from_secs 5 \<Longrightarrow> next_send_backoff b = min (2 * b) (duration_from_secs 5)"
  by (simp add: next_send_backoff_def duration_mul_f64_2 duration_from_secs_def)

text \<open>From five seconds on, whatever the rounding, the next sleep is five seconds.\<close>

lemma next_send_backoff_large:
  assumes "duration_from_secs 5 \<le> b"
  shows "next_send_backoff b = duration_from_secs 5"
proof -
  let ?n = "f64_div (f64_of_nat (b mod 1000000000)) 1000000000"
  have "5 \<le> b div 1000000000"
    using div_le_mono [OF assms, of 1000000000] by (simp add: duration_from_secs_def)
  then have s: "5 \<le> f64_of_nat (b div 1000000000)"
    using f64_of_nat_mono [of 5] by (simp add: f64_of_nat_exact)
  have "0 \<le> ?n" by (simp add: f64_div_def)
  then have "5 \<le> as_secs_f64 b"
    using rnd64_mono [of 5 "f64_of_nat (b div 1000000000) + ?n"] s rnd64_of_nat [of 5]
    by (simp add: as_secs_f64_def f64_add_def)
  then have "10 \<le> f64_mul 2 (as_secs_f64 b)"
    using rnd64_mono [of 10 "2 * as_secs_f64 b"] rnd64_of_nat [of 10] by (simp add: f64_mul_def)
  then have "rne (of_int 5000000000) \<le> rne (f64_mul 2 (as_secs_f64 b) * 1000000000)"
    by (intro rne_mono) simp
  then have "5000000000 \<le> duration_mul_f64 b 2"
    by (simp add: duration_mul_f64_def from_secs_f64_def rne_of_int [of 5000000000, simplified])
  then show ?thesis
    by (simp add: next_send_backoff_def duration_from_secs_def)
qed

lemma send_backoffs:
  "(next_send_backoff ^^ i) b = (if i = 0 then b else min (2 ^ i * b) (duration_from_secs 5))"
proof (induction i)
  case 0
  then show ?case by simp
next
  case (Suc i)
  show ?case
  proof (cases "b \<le> duration_from_secs 5")
    case True
    then have "(next_send_backoff ^^ i) b = min (2 ^ i * b) (duration_from_secs 5)"
      using Suc by (cases "i = 0") simp_all
    moreover have "next_send_backoff (min (2 ^ i * b) (duration_from_secs 5))
        = min (2 * min (2 ^ i * b) (duration_from_secs 5)) (duration_from_secs 5)"
      by (rule next_send_backoff_eq) simp
    moreover have "\<dots> = min (2 ^ Suc i * b) (duration_from_secs 5)"
      by (simp add: min_def)
    ultimately show ?thesis by simp
  next
    case False
    then have big: "duration_from_secs 5 \<le> 2 ^ i * b" for i
      using mult_le_mono [of 1 "2 ^ i" "duration_from_secs 5" b] by simp
    then have "(next_send_backoff ^^ i) b = (if i = 0 then b else duration_from_secs 5)"
      using Suc by (simp add: min_absorb2)
    then show ?thesis
      using False big [of "Suc i"] by (auto simp: next_send_backoff_large min_absorb2 simp del: power_Suc)
  qed
qed

section \<open>The retry loop\<close>

definition succeeds_at :: "(nat \<Rightarrow> 'e + 'x) \<Rightarrow> nat \<Rightarrow> nat \<Rightarrow> bool" where
  "succeeds_at net i k \<longleftrightarrow> i \<le> k \<and> (\<forall>j. i \<le> j \<and> j < k \<longrightarrow> isl (net j)) \<and> \<not> isl (net k)"

lemma count_retry_pow:
  "vn_stats ((count_retry ^^ k) m) = (vn_stats m)\<lparr>vs_message_retries := vs_message_retries (vn_stats m) + word_of_nat k\<rparr>"
  "vn_peers ((count_retry ^^ k) m) = vn_peers m"
  by (induction k) (simp_all add: count_retry_def modify_vstats_def algebra_simps)

lemma succeeds_at_Suc:
  assumes "isl (net i)"
  shows "succeeds_at net i k \<longleftrightarrow> succeeds_at net (Suc i) k"
  using assms unfolding succeeds_at_def
  by (metis Suc_leD Suc_leI le_antisym not_less not_less_eq_eq)

lemma send_attempts_success:
  assumes "left \<le> max_retries" and "succeeds_at net (max_retries - left) k" and "k < max_retries"
    and "net k = Inr (latency, now, n)"
    and "send_attempts net sc addr max_retries left backoff last_error m = (r, sleeps, m')"
  shows "r = Inr (latency, n) \<and> sleeps = map (\<lambda>i. (next_send_backoff ^^ i) backoff) [0..<k - (max_retries - left)]
    \<and> m' = record_success addr latency now n ((count_retry ^^ (k - (max_retries - left))) m)"
  using assms
proof (induction left arbitrary: backoff last_error m r sleeps)
  case 0
  then show ?case by (simp add: succeeds_at_def)
next
  case (Suc left)
  let ?i = "max_retries - Suc left"
  have i: "max_retries - left = Suc ?i" using Suc.prems(1) by simp
  show ?case
  proof (cases "net ?i")
    case (Inr x)
    then have "k = ?i"
      using Suc.prems(2) by (auto simp: succeeds_at_def not_less [symmetric] dest: le_neq_implies_less)
    then show ?thesis using Suc.prems(4,5) by simp
  next
    case (Inl e)
    then have at: "succeeds_at net (max_retries - left) k"
      using Suc.prems(2) by (simp add: succeeds_at_Suc i)
    then have k: "?i < k" using i by (simp add: succeeds_at_def)
    then have more: "?i < max_retries - 1" using Suc.prems(3) by simp
    obtain r1 sl1 m1 where run: "send_attempts net sc addr max_retries left (next_send_backoff backoff)
        (Some e) (count_retry m) = (r1, sl1, m1)" by (metis prod_cases3)
    have res: "r = r1" "sleeps = backoff # sl1" "m' = m1"
      using Suc.prems(5) run more Inl by (auto simp: Let_def)
    have d: "k - ?i = Suc (k - (max_retries - left))" using k i by simp
    from Suc.IH [OF _ at Suc.prems(3,4) run [folded res(3)]] Suc.prems(1) show ?thesis
      unfolding res d
      by (simp add: upt_conv_Cons map_Suc_upt [symmetric] funpow_swap1 del: upt_Suc)
  qed
qed

lemma send_attempts_failure:
  assumes "left \<le> max_retries" and "\<forall>j. max_retries - left \<le> j \<and> j < max_retries \<longrightarrow> isl (net j)"
    and "send_attempts net sc addr max_retries left backoff last_error m = (r, sleeps, m')"
  shows "r = Inl (case (if left = 0 then last_error else Some (projl (net (max_retries - 1)))) of
             Some e \<Rightarrow> e | None \<Rightarrow> InvalidData ''Unknown send error'')
    \<and> sleeps = map (\<lambda>i. (next_send_backoff ^^ i) backoff) [0..<left - 1]
    \<and> m' = modify_vpeer addr (vpeer_record_failure
             (case (if left = 0 then last_error else Some (projl (net (max_retries - 1)))) of
                Some e \<Rightarrow> sc e | None \<Rightarrow> ''Unknown error'')) ((count_retry ^^ left) m)"
  using assms
proof (induction left arbitrary: backoff last_error m r sleeps)
  case 0
  then show ?case by (simp add: give_up_def)
next
  case (Suc left)
  let ?i = "max_retries - Suc left"
  have i: "max_retries - left = Suc ?i" using Suc.prems(1) by simp
  obtain e where e: "net ?i = Inl e"
    using Suc.prems(1,2) by (metis diff_less isl_def le_refl less_le_trans zero_less_Suc)
  have rest: "\<forall>j. max_retries - left \<le> j \<and> j < max_retries \<longrightarrow> isl (net j)"
    using Suc.prems(2) i by simp
  show ?case
  proof (cases "left = 0")
    case True
    then show ?thesis using Suc.prems(3) e by (simp add: give_up_def)
  next
    case False
    then have more: "?i < max_retries - 1" using Suc.prems(1) by simp
    obtain r1 sl1 m1 where run: "send_attempts net sc addr max_retries left (next_send_backoff backoff)
        (Some e) (count_retry m) = (r1, sl1, m1)" by (metis prod_cases3)
    have res: "r = r1" "sleeps = backoff # sl1" "m' = m1"
      using Suc.prems(3) run more e by (auto simp: Let_def)
    obtain l where l: "left = Suc l" using False by (cases left) auto
    from Suc.IH [OF _ rest run [folded res(3)]] Suc.prems(1) show ?thesis
      unfolding res
      by (simp add: l upt_conv_Cons map_Suc_upt [symmetric] funpow_swap1 del: upt_Suc)
  qed
qed

text \<open>The loop over attempts of which a sent one is a success.\<close>

lemma attempt_result_sent:
  assumes "vm_to_bytes serialize message = Inr data" and "length data \<le> 10 * 1024 * 1024"
  shows "attempt_result show_core serialize message a = Inr x \<longleftrightarrow>
      (\<exists>l t. a = AT_Sent l t \<and> x = (l, t, word_of_nat (length data)))"
    and "isl (attempt_result show_core serialize message a) \<longleftrightarrow> (\<forall>l t. a \<noteq> AT_Sent l t)"
  using assms by (auto simp: attempt_result_def max_message_len_def split: attempt.split)

lemma send_retry_success:
  assumes "vm_to_bytes serialize message = Inr data" and "length data \<le> 10 * 1024 * 1024"
    and "send_message_with_retry show_core serialize net addr message m = (r, sleeps, m')"
    and "k < vn_max_retries m" and "net k = AT_Sent latency now" and "\<forall>j<k. \<forall>l t. net j \<noteq> AT_Sent l t"
  shows "r = Inr (latency, word_of_nat (length data))
      \<and> sleeps = map (\<lambda>i. (next_send_backoff ^^ i) (vn_retry_backoff m)) [0..<k]
      \<and> m' = record_success addr latency now (word_of_nat (length data)) ((count_retry ^^ k) m)"
proof -
  let ?n = "vn_max_retries m"
  let ?net = "\<lambda>i. attempt_result show_core serialize message (net i)"
  have run: "send_attempts ?net show_core addr ?n ?n (vn_retry_backoff m) None m = (r, sleeps, m')"
    using assms(3) by (simp add: send_message_with_retry_def)
  have k: "?net k = Inr (latency, now, word_of_nat (length data))"
    using attempt_result_sent(1) [OF assms(1,2)] assms(5) by blast
  have "succeeds_at ?net (?n - ?n) k"
    using assms(6) k by (simp add: succeeds_at_def attempt_result_sent(2) [OF assms(1,2)])
  from send_attempts_success [OF _ this assms(4) k run] show ?thesis by simp
qed

lemma send_retry_failure:
  assumes "vm_to_bytes serialize message = Inr data" and "length data \<le> 10 * 1024 * 1024"
    and "send_message_with_retry show_core serialize net addr message m = (r, sleeps, m')"
    and "\<forall>j<vn_max_retries m. \<forall>l t. net j \<noteq> AT_Sent l t"
  shows "\<exists>e err. r = Inl e
      \<and> (if vn_max_retries m = 0 then e = InvalidData ''Unknown send error'' \<and> err = ''Unknown error''
         else attempt_result show_core serialize message (net (vn_max_retries m - 1)) = Inl e \<and> err = show_core e)
      \<and> sleeps = map (\<lambda>i. (next_send_backoff ^^ i) (vn_retry_backoff m)) [0..<vn_max_retries m - 1]
      \<and> m' = modify_vpeer addr (vpeer_record_failure err) ((count_retry ^^ vn_max_retries m) m)"
proof -
  let ?n = "vn_max_retries m"
  let ?net = "\<lambda>i. attempt_result show_core serialize message (net i)"
  have run: "send_attempts ?net show_core addr ?n ?n (vn_retry_backoff m) None m = (r, sleeps, m')"
    using assms(3) by (simp add: send_message_with_retry_def)
  have failed: "isl (?net j)" if "j < ?n" for j
    using assms(4) that by (simp add: attempt_result_sent(2) [OF assms(1,2)])
  show ?thesis
  proof (cases "?n = 0")
    case True
    then show ?thesis using send_attempts_failure [OF _ _ run] by simp
  next
    case False
    then obtain e where "?net (?n - 1) = Inl e"
      using failed [of "?n - 1"] by (auto simp: isl_def)
    then show ?thesis
      using send_attempts_failure [OF _ _ run] failed False by simp
  qed
qed

section \<open>Collecting the results of a broadcast\<close>

definition successes :: "'x option list \<Rightarrow> 'x list" where
  "successes rs = [x. Some x \<leftarrow> rs]"

lemma successes_simps [simp]:
  "successes [] = []" "successes (None # rs) = successes rs" "successes (Some x # rs) = x # successes rs"
  by (simp_all add: successes_def)

lemma length_successes_le: "length (successes rs) \<le> length rs"
  by (induction rs) (auto simp: successes_def split: option.splits)

lemma tally_step_simps:
  "tally_step t None = t\<lparr>ta_failed := ta_failed t + 1\<rparr>"
  "tally_step t (Some (l, n)) = t\<lparr>ta_successful := ta_successful t + 1, ta_total_latency := ta_total_latency t + l,
     ta_min_latency := min (ta_min_latency t) l, ta_max_latency := max (ta_max_latency t) l,
     ta_total_bytes_sent := ta_total_bytes_sent t + n\<rparr>"
  by (simp_all add: tally_step_def)

lemma foldl_tally:
  "foldl tally_step t rs =
     \<lparr>ta_successful = ta_successful t + length (successes rs),
      ta_failed = ta_failed t + (length rs - length (successes rs)),
      ta_total_latency = ta_total_latency t + sum_list (map fst (successes rs)),
      ta_min_latency = fold min (map fst (successes rs)) (ta_min_latency t),
      ta_max_latency = fold max (map fst (successes rs)) (ta_max_latency t),
      ta_total_bytes_sent = ta_total_bytes_sent t + sum_list (map snd (successes rs))\<rparr>"
proof (induction rs arbitrary: t)
  case Nil
  then show ?case by simp
next
  case (Cons r rs)
  show ?case
    using length_successes_le [of rs] by (cases r) (auto simp: Cons tally_step_simps add.assoc min.commute max.commute Suc_diff_le)
qed

lemma fold_min_max:
  fixes b :: "'b::linorder"
  shows "x \<in> set xs \<Longrightarrow> fold min xs b \<le> x" "x \<in> set xs \<Longrightarrow> x \<le> fold max xs b"
    "fold min xs b \<le> b" "b \<le> fold max xs b"
proof (induction xs arbitrary: b)
  case Nil
  { case 1 then show ?case by simp }
  { case 2 then show ?case by simp }
  { case 3 then show ?case by simp }
  { case 4 then show ?case by simp }
next
  case (Cons y ys)
  { case 1 then show ?case using Cons.IH(1,3) [of "min y b"] by (auto intro: order_trans) }
  { case 2 then show ?case using Cons.IH(2,4) [of "max y b"] by (auto intro: order_trans) }
  { case 3 then show ?case using Cons.IH(3) [of "min y b"] by (auto intro: order_trans) }
  { case 4 then show ?case using Cons.IH(4) [of "max y b"] by (auto intro: order_trans) }
qed

text \<open>The integer average of words lies between any bounds of the words.\<close>

lemma average_between:
  fixes ls :: "u64 list"
  assumes "ls \<noteq> []" and "sum_list (map unat ls) < 2 ^ 64" and "length ls < 2 ^ 64"
    and "\<forall>l\<in>set ls. lo \<le> l \<and> l \<le> hi"
  shows "lo \<le> sum_list ls div word_of_nat (length ls) \<and> sum_list ls div word_of_nat (length ls) \<le> hi"
proof -
  have sum: "unat (sum_list ls) = sum_list (map unat ls)"
    using assms(2)
  proof (induction ls)
    case Nil
    then show ?case by simp
  next
    case (Cons l ls)
    then have "unat (sum_list ls) = sum_list (map unat ls)" by simp
    then show ?case using Cons.prems by (simp add: unat_add_lem [THEN iffD1])
  qed
  have n: "unat (word_of_nat (length ls) :: u64) = length ls"
    using assms(3) by (intro unat_of_nat_small) simp
  have div: "unat (sum_list ls div word_of_nat (length ls)) = sum_list (map unat ls) div length ls"
    by (simp add: unat_div sum n)
  have lower: "length xs * unat lo \<le> sum_list (map unat xs)" if "\<forall>l\<in>set xs. lo \<le> l" for xs
    using that by (induction xs) (auto simp: word_le_nat_alt)
  have upper: "sum_list (map unat xs) \<le> length xs * unat hi" if "\<forall>l\<in>set xs. l \<le> hi" for xs
    using that by (induction xs) (auto simp: word_le_nat_alt)
  have pos: "0 < length ls" using assms(1) by simp
  have "unat lo \<le> sum_list (map unat ls) div length ls"
    using lower [of ls] assms(4) pos by (simp add: less_eq_div_iff_mult_less_eq mult.commute)
  moreover have "sum_list (map unat ls) div length ls \<le> unat hi"
    using div_le_mono [OF upper [of ls], of "length ls"] assms(4) pos by simp
  ultimately show ?thesis by (simp add: word_le_nat_alt div)
qed

lemma length_connected_addresses: "length (connected_addresses m) = get_connected_peer_count m"
proof -
  have "length [addr. (addr, p) \<leftarrow> ps, vp_state p = CS_Connected]
      = length (filter (\<lambda>(_, p). vp_state p = CS_Connected) ps)" for ps :: "('a, 'a validator_peer) hmap"
    by (induction ps) auto
  then show ?thesis by (simp add: connected_addresses_def get_connected_peer_count_def)
qed

lemma send_all_length: "send_all sc ser net msg addrs m = (rs, m') \<Longrightarrow> length rs = length addrs"
  by (induction addrs arbitrary: m rs) (auto simp: Let_def split: prod.splits)

text \<open>A broadcast in one equation: with no connected peer the tally is empty, too.\<close>

lemma broadcast_message_eq:
  assumes "send_all sc ser net msg (connected_addresses m) m = (rs, m1)"
  shows "broadcast_message sc ser net d msg m =
    (let r = tally_result (length (connected_addresses m)) d (foldl tally_step tally_start rs)
     in (Inr r, if connected_addresses m = [] then m else finish_broadcast r m1))"
  using assms by (auto simp: broadcast_message_def Let_def tally_result_def tally_start_def)

text \<open>Sending touches the table only at the peer, and of the statistics only two counters.\<close>

definition totals :: "broadcast_stats \<Rightarrow> u64 \<times> u64 \<times> u64 \<times> u64" where
  "totals s = (vs_total_broadcasts s, vs_successful_broadcasts s, vs_failed_broadcasts s, vs_total_bytes_sent s)"

lemma send_attempts_totals:
  "send_attempts net sc addr n left b e m = (r, sl, m') \<Longrightarrow> totals (vn_stats m') = totals (vn_stats m)"
proof (induction net sc addr n left b e m arbitrary: r sl m' rule: send_attempts.induct)
  case (1 net sc addr n b e m)
  then show ?case by (auto simp: give_up_def modify_vpeer_def)
next
  case (2 net sc addr n left b e m)
  have c: "totals (vn_stats (count_retry m)) = totals (vn_stats m)"
    by (simp add: count_retry_def modify_vstats_def totals_def)
  show ?case
  proof (cases "net (n - Suc left)")
    case (Inl a)
    then show ?thesis
      using 2 c by (auto simp: Let_def split: prod.splits if_splits)
  next
    case (Inr a)
    then show ?thesis
      using "2.prems" by (cases a) (auto simp: record_success_def modify_vstats_def modify_vpeer_def totals_def)
  qed
qed

lemma send_all_totals:
  "send_all sc ser net msg addrs m = (rs, m') \<Longrightarrow> totals (vn_stats m') = totals (vn_stats m)"
proof (induction addrs arbitrary: m rs)
  case Nil
  then show ?case by simp
next
  case (Cons addr addrs)
  obtain x m1 where one: "(case net addr of None \<Rightarrow> (None, m)
      | Some n \<Rightarrow> (case send_message_with_retry sc ser n addr msg m of
                    (Inl _, _, m') \<Rightarrow> (None, m') | (Inr ok, _, m') \<Rightarrow> (Some ok, m'))) = (x, m1)"
    by fastforce
  have "totals (vn_stats m1) = totals (vn_stats m)"
    using one by (auto simp: send_message_with_retry_def split: option.splits prod.splits sum.splits
        dest!: send_attempts_totals)
  moreover obtain rs1 where "send_all sc ser net msg addrs m1 = (rs1, m')"
    using Cons.prems one by (auto simp: Let_def split: prod.splits)
  ultimately show ?case using Cons.IH by simp
qed

section \<open>Connection attempts\<close>

lemma connect_finish_others:
  assumes "connect_finish serialize deserialize outcome a m = (r, m')" and "b \<noteq> a"
  shows "hm_get (vn_peers m') b = hm_get (vn_peers m) b"
  using assms
  by (auto simp: connect_finish_def connect_reply_def count_connection_failure_def modify_vpeer_def modify_vstats_def
      hm_simps split: connect_result.splits option.splits read_result.splits list.splits sum.splits
      validator_message.splits if_splits)

text \<open>A peer that answers something.\<close>

lemma connect_finish_answer:
  assumes "hm_get (vn_peers m) a = Some p" and "vm_to_bytes serialize (own_handshake m) = Inr hs"
    and "bs \<noteq> []" and "connect_finish serialize deserialize (CN_Connected None (RR_Data bs)) a m = (r, m')"
  shows "r = Inr ()"
    and "vm_from_bytes deserialize bs = Inr (VM_Handshake i v c) \<Longrightarrow>
           hm_get (vn_peers m') a = Some (register_handshake i v c p)"
    and "\<nexists>i v c. vm_from_bytes deserialize bs = Inr (VM_Handshake i v c) \<Longrightarrow> m' = m"
proof -
  have res: "r = Inr ()" "m' = connect_reply deserialize (RR_Data bs) a m"
    using assms(2,4) by (simp_all add: connect_finish_def)
  show "r = Inr ()" by (rule res)
  obtain b bs' where bs: "bs = b # bs'" using assms(3) by (cases bs) auto
  show "hm_get (vn_peers m') a = Some (register_handshake i v c p)"
    if "vm_from_bytes deserialize bs = Inr (VM_Handshake i v c)"
    using that assms(1) unfolding res(2) bs
    by (simp add: connect_reply_def modify_vpeer_def modify_vstats_def hm_simps)
  show "m' = m" if "\<nexists>i v c. vm_from_bytes deserialize bs = Inr (VM_Handshake i v c)"
    using that unfolding res(2) bs
    by (auto simp: connect_reply_def split: sum.split validator_message.split)
qed

text \<open>Every other outcome marks the peer as failed.\<close>

lemma connect_finish_fails:
  assumes "hm_get (vn_peers m) a = Some p" and "vm_to_bytes serialize (own_handshake m) = Inr hs"
    and "connect_finish serialize deserialize outcome a m = (r, m')"
    and "\<nexists>bs. outcome = CN_Connected None (RR_Data bs) \<and> bs \<noteq> []"
  shows "\<exists>p'. hm_get (vn_peers m') a = Some p' \<and> vp_state p' = CS_Failed
        \<and> vp_failed_attempts p' = vp_failed_attempts p + 1"
    and "r = Inr () \<longleftrightarrow> (\<exists>reply. outcome = CN_Connected None reply)"
proof -
  have "\<exists>err. vn_peers m' = hm_modify a (fail_peer err) (vn_peers m)"
    using assms
    by (auto simp: connect_finish_def connect_reply_def count_connection_failure_def modify_vpeer_def
        modify_vstats_def split: connect_result.splits option.splits read_result.splits list.splits)
  then show "\<exists>p'. hm_get (vn_peers m') a = Some p' \<and> vp_state p' = CS_Failed
        \<and> vp_failed_attempts p' = vp_failed_attempts p + 1"
    using assms(1) by (auto simp: hm_simps fail_peer_def vpeer_record_failure_def Let_def)
  show "r = Inr () \<longleftrightarrow> (\<exists>reply. outcome = CN_Connected None reply)"
    using assms(2,3) by (auto simp: connect_finish_def split: connect_result.splits option.splits)
qed

section \<open>Soundness of the peer table\<close>

text \<open>
  The public methods that change the state and the tasks they spawn; \<open>connect_peer\<close> in the two
  steps between which other calls may come.
\<close>

datatype 'a validator_call =
    VC_Listen "string + unit"
  | VC_Add instant 'a
  | VC_Remove 'a
  | VC_Disconnect 'a
  | VC_ConnectBegin 'a
  | VC_ConnectFinish connect_result 'a
  | VC_Connection "string option" read_result "(instant \<times> read_result) list" 'a
  | VC_Cleanup instant
  | VC_Reconnect "'a \<Rightarrow> connect_result"
  | VC_ResetStats
  | VC_Broadcast "'a \<Rightarrow> (nat \<Rightarrow> attempt) option" u64 validator_message

fun validator_step ::
  "('a \<Rightarrow> string) \<Rightarrow> (core_error \<Rightarrow> string) \<Rightarrow> (validator_message \<Rightarrow> string + bytes)
     \<Rightarrow> (bytes \<Rightarrow> string + validator_message) \<Rightarrow> 'a validator_call \<Rightarrow> 'a validator_manager \<Rightarrow> 'a validator_manager" where
  "validator_step sa sc ser de (VC_Listen bound) m = snd (start_listener bound m)"
| "validator_step sa sc ser de (VC_Add now a) m = snd (vn_add_peer sa now a m)"
| "validator_step sa sc ser de (VC_Remove a) m = snd (vn_remove_peer sa a m)"
| "validator_step sa sc ser de (VC_Disconnect a) m = snd (disconnect_peer sa a m)"
| "validator_step sa sc ser de (VC_ConnectBegin a) m = snd (connect_begin sa a m)"
| "validator_step sa sc ser de (VC_ConnectFinish outcome a) m = snd (connect_finish ser de outcome a m)"
| "validator_step sa sc ser de (VC_Connection w r rs a) m = snd (handle_peer_connection ser de w r rs a m)"
| "validator_step sa sc ser de (VC_Cleanup now) m = snd (cleanup_stale_peers now m)"
| "validator_step sa sc ser de (VC_Reconnect outcomes) m = snd (reconnect_failed_peers sa ser de outcomes m)"
| "validator_step sa sc ser de VC_ResetStats m = vn_reset_stats m"
| "validator_step sa sc ser de (VC_Broadcast net d msg) m = snd (broadcast_message sc ser net d msg m)"

text \<open>
  The table and the count that the statistics keep of it, exact unless they were reset.
\<close>

definition vtable_ok :: "bool \<Rightarrow> nat \<Rightarrow> 'a validator_manager \<Rightarrow> bool" where
  "vtable_ok x n m \<longleftrightarrow> hm_wf (vn_peers m) \<and> hm_size (vn_peers m) \<le> n
     \<and> (\<forall>a p. hm_get (vn_peers m) a = Some p \<longrightarrow> vp_address p = a)
     \<and> unat (vs_peer_count (vn_stats m)) \<le> hm_size (vn_peers m)
     \<and> (x \<longrightarrow> unat (vs_peer_count (vn_stats m)) = hm_size (vn_peers m))"

lemma vtable_ok_mono: "vtable_ok x n m \<Longrightarrow> n \<le> k \<Longrightarrow> vtable_ok x k m"
  by (simp add: vtable_ok_def)

lemma vtable_ok_modify:
  assumes "vtable_ok x n m" and "\<And>p. vp_address (f p) = vp_address p"
  shows "vtable_ok x n (modify_vpeer a f m)"
  using assms by (auto simp: vtable_ok_def modify_vpeer_def hm_simps split: if_splits simp del: map_of_eq_Some_iff)

lemma vtable_ok_stats:
  assumes "vtable_ok x n m" and "\<And>s. vs_peer_count (f s) = vs_peer_count s"
  shows "vtable_ok x n (modify_vstats f m)"
  using assms by (simp add: vtable_ok_def modify_vstats_def)

lemma vpeer_address [simp]:
  "vp_address (vpeer_record_failure e p) = vp_address p"
  "vp_address (vpeer_record_sent t n l p) = vp_address p"
  "vp_address (vpeer_record_received t n p) = vp_address p"
  "vp_address (vpeer_reset_failures p) = vp_address p"
  "vp_address (fail_peer e p) = vp_address p"
  "vp_address (register_handshake i v c p) = vp_address p"
  by (simp_all add: vpeer_record_failure_def vpeer_record_sent_def vpeer_record_received_def
      vpeer_reset_failures_def fail_peer_def register_handshake_def vpeer_update_last_seen_def Let_def)

lemmas vtable_intros = vtable_ok_modify vtable_ok_stats

lemma vtable_ok_receive: "vtable_ok x n m \<Longrightarrow> vtable_ok x n (receive_loop de a rs m)"
proof (induction de a rs m rule: receive_loop.induct)
  case (2 de addr now bs rest m)
  let ?m = "case vm_from_bytes de bs of Inl _ \<Rightarrow> m
    | Inr _ \<Rightarrow> modify_vstats (\<lambda>s. s\<lparr>vs_total_messages_received := vs_total_messages_received s + 1,
                      vs_total_bytes_received := vs_total_bytes_received s + word_of_nat (length bs)\<rparr>)
                    (modify_vpeer addr (vpeer_record_received now (word_of_nat (length bs))) m)"
  have "vtable_ok x n ?m"
    using "2.prems" by (auto intro!: vtable_intros split: sum.split)
  with 2 show ?case by (auto intro!: vtable_intros)
qed (auto intro!: vtable_intros)

lemma vtable_ok_send:
  "vtable_ok x k m \<Longrightarrow> send_attempts net sc a n left b e m = (r, sl, m') \<Longrightarrow> vtable_ok x k m'"
proof (induction net sc a n left b e m arbitrary: r sl m' rule: send_attempts.induct)
  case (1 net sc addr n b e m)
  then show ?case by (auto simp: give_up_def intro!: vtable_intros)
next
  case (2 net sc addr n left b e m)
  have "vtable_ok x k (count_retry m)"
    using "2.prems"(1) by (auto simp: count_retry_def intro!: vtable_intros)
  with 2 show ?case
    by (auto simp: Let_def record_success_def intro!: vtable_intros split: sum.splits prod.splits if_splits)
qed

lemma vtable_ok_send_all:
  "vtable_ok x k m \<Longrightarrow> send_all sc ser net msg addrs m = (rs, m') \<Longrightarrow> vtable_ok x k m'"
proof (induction addrs arbitrary: m rs)
  case Nil
  then show ?case by simp
next
  case (Cons addr addrs)
  obtain y m1 where one: "(case net addr of None \<Rightarrow> (None, m)
      | Some n \<Rightarrow> (case send_message_with_retry sc ser n addr msg m of
                    (Inl _, _, m') \<Rightarrow> (None, m') | (Inr ok, _, m') \<Rightarrow> (Some ok, m'))) = (y, m1)"
    by fastforce
  have "vtable_ok x k m1"
    using one Cons.prems(1) by (auto simp: send_message_with_retry_def split: option.splits prod.splits sum.splits
        dest: vtable_ok_send)
  moreover obtain rs1 where "send_all sc ser net msg addrs m1 = (rs1, m')"
    using Cons.prems one by (auto simp: Let_def split: prod.splits)
  ultimately show ?case using Cons.IH by simp
qed

lemma vtable_ok_reply: "vtable_ok x n m \<Longrightarrow> vtable_ok x n (connect_reply de reply a m)"
  by (auto simp: connect_reply_def intro!: vtable_intros
      split: read_result.split list.split sum.split validator_message.split)

lemma vtable_ok_connect:
  assumes "vtable_ok x n m"
  shows "vtable_ok x n (snd (connect_begin sa a m))"
    and "vtable_ok x n (snd (connect_finish ser de outcome a m))"
proof -
  show "vtable_ok x n (snd (connect_begin sa a m))"
    using assms by (auto simp: connect_begin_def intro!: vtable_intros)
  show "vtable_ok x n (snd (connect_finish ser de outcome a m))"
    using assms by (auto simp: connect_finish_def count_connection_failure_def
        intro!: vtable_intros vtable_ok_reply split: connect_result.split sum.split option.split)
qed

lemma vtable_ok_reconnect: "vtable_ok x n m \<Longrightarrow> vtable_ok x n (snd (reconnect_all sa ser de outcomes addrs m))"
proof (induction addrs arbitrary: m)
  case Nil
  then show ?case by simp
next
  case (Cons a addrs)
  have "vtable_ok x n (snd (connect_peer sa ser de (outcomes a) a m))"
    using vtable_ok_connect(1) [OF Cons.prems, of sa a]
    by (cases "connect_begin sa a m") (auto simp: connect_peer_def vtable_ok_connect(2) split: sum.split)
  from Cons.IH [OF this] show ?case by (simp add: split_beta)
qed

text \<open>Adding and removing move the count with the size.\<close>

lemma vtable_ok_add:
  assumes "vtable_ok x n m" and "Suc n < 2 ^ 64"
  shows "vtable_ok x (Suc n) (snd (vn_add_peer sa now a m))"
proof (cases "hm_has (vn_peers m) a")
  case True
  then show ?thesis using vtable_ok_mono [OF assms(1), of "Suc n"] by (simp add: vn_add_peer_def)
next
  case False
  let ?c = "vs_peer_count (vn_stats m)"
  have "unat (?c + 1) = unat ?c + 1"
    using assms by (intro unat_add_lem [THEN iffD1, of ?c 1, unfolded unat_1]) (simp add: vtable_ok_def)
  with False assms(1) show ?thesis
    by (auto simp: vn_add_peer_def modify_vstats_def vtable_ok_def hm_simps vpeer_new_def simp del: map_of_eq_Some_iff)
qed

lemma vtable_ok_remove:
  assumes "vtable_ok x n m"
  shows "vtable_ok x n (snd (vn_remove_peer sa a m))"
proof (cases "hm_get (vn_peers m) a")
  case None
  then show ?thesis using assms by (simp add: vn_remove_peer_def)
next
  case (Some p)
  then have "hm_size (hm_del a (vn_peers m)) = hm_size (vn_peers m) - 1"
    using assms by (simp add: hm_size_del vtable_ok_def)
  then show ?thesis
    using assms Some
    by (auto simp: vn_remove_peer_def modify_vstats_def vtable_ok_def hm_simps machine_simps split: if_splits
        simp del: map_of_eq_Some_iff)
qed

lemma vtable_ok_cleanup:
  assumes "vtable_ok x n m" and "n < 2 ^ 64"
  shows "vtable_ok x n (snd (cleanup_stale_peers now m))"
proof -
  let ?kept = "hm_retain (\<lambda>_ p. \<not> vpeer_is_stale now p) (vn_peers m)"
  have "hm_size ?kept \<le> n"
    using assms(1) by (auto simp: vtable_ok_def intro: le_trans [OF length_filter_le])
  then have "unat (word_of_nat (hm_size ?kept) :: u64) = hm_size ?kept"
    using assms(2) by (intro unat_of_nat_small) simp
  with \<open>hm_size ?kept \<le> n\<close> assms(1) show ?thesis
    by (auto simp: cleanup_stale_peers_def modify_vstats_def vtable_ok_def hm_simps Let_def
        split: option.splits if_splits simp del: map_of_eq_Some_iff)
qed

lemma vtable_ok_connection: "vtable_ok x n m \<Longrightarrow> vtable_ok x n (snd (handle_peer_connection ser de w r rs a m))"
  by (auto simp: handle_peer_connection_def intro!: vtable_intros vtable_ok_receive
      split: read_result.split sum.split option.split validator_message.split)

lemma vtable_ok_disconnect: "vtable_ok x n m \<Longrightarrow> vtable_ok x n (snd (disconnect_peer sa a m))"
  by (auto simp: disconnect_peer_def intro!: vtable_intros split: option.split)

lemma vtable_ok_broadcast: "vtable_ok x n m \<Longrightarrow> vtable_ok x n (snd (broadcast_message sc ser net d msg m))"
  by (auto simp: broadcast_message_def finish_broadcast_def Let_def intro!: vtable_intros dest: vtable_ok_send_all split: prod.split)

lemma vtable_ok_reset: "vtable_ok False n m \<Longrightarrow> vtable_ok False n (vn_reset_stats m)"
  by (simp add: vtable_ok_def vn_reset_stats_def broadcast_stats_default_def)

lemma vtable_ok_listen: "vtable_ok x n m \<Longrightarrow> vtable_ok x n (snd (start_listener bound m))"
  by (simp add: vtable_ok_def start_listener_def split: sum.split)

lemma validator_step_ok:
  assumes ok: "vtable_ok x n m" and n: "Suc n < 2 ^ 64" and exact: "x \<longrightarrow> c \<noteq> VC_ResetStats"
  shows "vtable_ok x (Suc n) (validator_step sa sc ser de c m)"
proof -
  have mono: "vtable_ok x n m' \<Longrightarrow> vtable_ok x (Suc n) m'" for m' :: "'a validator_manager"
    by (erule vtable_ok_mono) simp
  show ?thesis
  proof (cases c)
    case (VC_Add now a)
    then show ?thesis using vtable_ok_add [OF ok n] by simp
  next
    case VC_ResetStats
    then show ?thesis using ok exact mono by (auto dest: vtable_ok_reset)
  qed (use ok n in \<open>simp_all add: mono vtable_ok_listen vtable_ok_remove vtable_ok_disconnect vtable_ok_connect
         vtable_ok_connection vtable_ok_cleanup vtable_ok_broadcast reconnect_failed_peers_def vtable_ok_reconnect\<close>)
qed

lemma validator_run_ok:
  assumes "vtable_ok x n m" and "n + length cs < 2 ^ 64" and "x \<longrightarrow> VC_ResetStats \<notin> set cs"
  shows "vtable_ok x (n + length cs) (fold (validator_step sa sc ser de) cs m)"
  using assms
proof (induction cs arbitrary: n m)
  case Nil
  then show ?case by simp
next
  case (Cons c cs)
  then have "vtable_ok x (Suc n) (validator_step sa sc ser de c m)"
    by (intro validator_step_ok) auto
  with Cons.IH [of "Suc n"] Cons.prems(2,3) show ?case by simp
qed

section \<open>Properties\<close>

text \<open>
  C4: sending with retries, for every configuration and every message whose frame is within 10 MB.
  The send succeeds exactly when one of the first \<open>max_retries\<close> attempts does, with the latency of
  the first such attempt and after one counted retry per earlier failure. When all fail, the error is
  that of the last one, every attempt is counted as a retry and the peer gets a single failure; with
  \<open>max_retries = 0\<close> nothing is attempted and the error is an unknown one. There is a sleep between
  any two attempts: the first is the configured backoff, however long, and every later one is twice
  the one before it, but at most five seconds. (The backoff is taken to be below \<open>2^62\<close> seconds, so that \<open>mul_f64\<close>
  does not overflow a \<open>Duration\<close> and panic.)
\<close>

theorem send_with_retry_spec:
  assumes "vm_to_bytes serialize message = Inr data" and "length data \<le> 10 * 1024 * 1024"
    and "vn_retry_backoff m < duration_from_secs (2 ^ 62)"
    and "send_message_with_retry show_core serialize net addr message m = (r, sleeps, m')"
  shows "(\<forall>k latency now. k < vn_max_retries m \<and> net k = AT_Sent latency now
            \<and> (\<forall>j<k. \<forall>l t. net j \<noteq> AT_Sent l t) \<longrightarrow>
            r = Inr (latency, word_of_nat (length data)) \<and> length sleeps = k
          \<and> vs_message_retries (vn_stats m') = vs_message_retries (vn_stats m) + word_of_nat k
          \<and> vs_total_messages_sent (vn_stats m') = vs_total_messages_sent (vn_stats m) + 1)
       \<and> ((\<forall>j<vn_max_retries m. \<forall>l t. net j \<noteq> AT_Sent l t) \<longrightarrow>
            (\<exists>e err. r = Inl e
               \<and> (if vn_max_retries m = 0 then e = InvalidData ''Unknown send error'' \<and> err = ''Unknown error''
                  else attempt_result show_core serialize message (net (vn_max_retries m - 1)) = Inl e \<and> err = show_core e)
               \<and> hm_get (vn_peers m') addr = map_option (vpeer_record_failure err) (hm_get (vn_peers m) addr))
          \<and> length sleeps = vn_max_retries m - 1
          \<and> vs_message_retries (vn_stats m') = vs_message_retries (vn_stats m) + word_of_nat (vn_max_retries m))
       \<and> (\<forall>i<length sleeps. sleeps ! i =
            (if i = 0 then vn_retry_backoff m else min (2 ^ i * vn_retry_backoff m) (duration_from_secs 5)))"
proof -
  let ?n = "vn_max_retries m"
  let ?net = "\<lambda>i. attempt_result show_core serialize message (net i)"
  note success = send_retry_success [OF assms(1,2,4)]
  note failure = send_retry_failure [OF assms(1,2,4)]
  have part2: "(\<exists>e err. r = Inl e
               \<and> (if ?n = 0 then e = InvalidData ''Unknown send error'' \<and> err = ''Unknown error''
                  else ?net (?n - 1) = Inl e \<and> err = show_core e)
               \<and> hm_get (vn_peers m') addr = map_option (vpeer_record_failure err) (hm_get (vn_peers m) addr))
          \<and> length sleeps = ?n - 1
          \<and> vs_message_retries (vn_stats m') = vs_message_retries (vn_stats m) + word_of_nat ?n"
    if "\<forall>j<?n. \<forall>l t. net j \<noteq> AT_Sent l t"
    using failure [OF that] by (fastforce simp: modify_vpeer_def count_retry_pow hm_get_modify)
  have "\<exists>k. sleeps = map (\<lambda>i. (next_send_backoff ^^ i) (vn_retry_backoff m)) [0..<k]"
  proof (cases "\<exists>j<?n. \<exists>l t. net j = AT_Sent l t")
    case True
    then obtain k where "k < ?n \<and> (\<exists>l t. net k = AT_Sent l t)" "\<forall>j<k. \<not> (j < ?n \<and> (\<exists>l t. net j = AT_Sent l t))"
      using exists_least_iff [of "\<lambda>j. j < ?n \<and> (\<exists>l t. net j = AT_Sent l t)"] by blast
    then show ?thesis using success [of k] by (metis order.strict_trans)
  next
    case False
    then show ?thesis using failure by blast
  qed
  then have part3: "\<forall>i<length sleeps. sleeps ! i =
      (if i = 0 then vn_retry_backoff m else min (2 ^ i * vn_retry_backoff m) (duration_from_secs 5))"
    by (elim exE) (simp add: send_backoffs del: upt_Suc)
  have part1: "\<forall>k latency now. k < ?n \<and> net k = AT_Sent latency now
            \<and> (\<forall>j<k. \<forall>l t. net j \<noteq> AT_Sent l t) \<longrightarrow>
            r = Inr (latency, word_of_nat (length data)) \<and> length sleeps = k
          \<and> vs_message_retries (vn_stats m') = vs_message_retries (vn_stats m) + word_of_nat k
          \<and> vs_total_messages_sent (vn_stats m') = vs_total_messages_sent (vn_stats m) + 1"
    using success by (auto simp: record_success_def modify_vstats_def modify_vpeer_def count_retry_pow)
  show ?thesis
    using part1 part2 part3 by blast
qed

theorem send_with_retry_spec_witness:
  "length (fst (snd (send_message_with_retry (\<lambda>_. ''e'') (\<lambda>_. Inr [1])
     (\<lambda>i. if i = 0 then AT_SendTimeout else AT_Sent 7 50) () (VM_Ping 1 2) (manager_new () [])))) = 1"
proof -
  let ?net = "\<lambda>i::nat. if i = 0 then AT_SendTimeout else AT_Sent 7 50"
  obtain r sleeps m' where run: "send_message_with_retry (\<lambda>_. ''e'') (\<lambda>_. Inr [1]) ?net () (VM_Ping 1 2)
      (manager_new () []) = (r, sleeps, m')" by (metis prod_cases3)
  have "vm_to_bytes (\<lambda>_. Inr [1]) (VM_Ping 1 2) = Inr [0, 0, 0, 1, 1]"
    by (simp add: vm_to_bytes_def frame_to_bytes_def to_be_bytes_def)
  from send_with_retry_spec [OF this _ _ run]
  have "1 < vn_max_retries (manager_new () []) \<and> ?net 1 = AT_Sent 7 50 \<and> (\<forall>j<1. \<forall>l t. ?net j \<noteq> AT_Sent l t)
      \<longrightarrow> length sleeps = 1"
    by (simp add: manager_new_def duration_from_secs_def duration_from_millis_def)
  then have "length sleeps = 1" by (simp add: manager_new_def)
  then show ?thesis by (simp add: run)
qed

text \<open>
  C11: a broadcast always answers, and its report adds up: every connected peer is counted as a
  success or as a failure; the bytes are those of the successful sends, whose latencies lie between
  the reported minimum and maximum, and so does the average unless the sum of latencies exceeds 64
  bits; with no success all of these are 0. The running statistics grow by exactly this report, and
  count one broadcast more; only a broadcast with no connected peer leaves everything as it was. (For
  a table of fewer than \<open>2^64\<close> peers.)
\<close>

theorem broadcast_accounting:
  assumes "hm_size (vn_peers m) < 2 ^ 64"
    and "send_all show_core serialize net message (connected_addresses m) m = (rs, m1)"
    and "broadcast_message show_core serialize net duration_ms message m = (res, m')"
  shows "\<exists>r. res = Inr r
     \<and> br_total_peers r = get_connected_peer_count m
     \<and> br_successful r + br_failed r = br_total_peers r
     \<and> br_successful r = length (successes rs)
     \<and> br_total_bytes_sent r = sum_list (map snd (successes rs))
     \<and> (\<forall>(latency, n)\<in>set (successes rs). br_min_latency_ms r \<le> latency \<and> latency \<le> br_max_latency_ms r)
     \<and> (successes rs \<noteq> [] \<and> sum_list (map (unat \<circ> fst) (successes rs)) < 2 ^ 64 \<longrightarrow>
          br_min_latency_ms r \<le> br_avg_latency_ms r \<and> br_avg_latency_ms r \<le> br_max_latency_ms r)
     \<and> (successes rs = [] \<longrightarrow>
          br_min_latency_ms r = 0 \<and> br_avg_latency_ms r = 0 \<and> br_max_latency_ms r = 0)
     \<and> (if get_connected_peer_count m = 0 then m' = m
        else totals (vn_stats m') = (vs_total_broadcasts (vn_stats m) + 1,
               vs_successful_broadcasts (vn_stats m) + word_of_nat (br_successful r),
               vs_failed_broadcasts (vn_stats m) + word_of_nat (br_failed r),
               vs_total_bytes_sent (vn_stats m) + br_total_bytes_sent r))"
proof -
  let ?ok = "successes rs"
  let ?r = "tally_result (length (connected_addresses m)) duration_ms (foldl tally_step tally_start rs)"
  have count: "length (connected_addresses m) = get_connected_peer_count m"
    by (rule length_connected_addresses)
  have res: "res = Inr ?r" and m': "m' = (if get_connected_peer_count m = 0 then m else finish_broadcast ?r m1)"
    using broadcast_message_eq [OF assms(2), of duration_ms] assms(3) count by (auto simp: Let_def)
  have len: "length rs = get_connected_peer_count m"
    using send_all_length [OF assms(2)] count by simp
  have ok: "length ?ok \<le> length rs" by (rule length_successes_le)
  have "get_connected_peer_count m \<le> hm_size (vn_peers m)"
    unfolding get_connected_peer_count_def by (rule length_filter_le)
  then have small: "length ?ok < 2 ^ 64" using ok len assms(1) by simp
  have min: "br_min_latency_ms ?r \<le> l" and max: "l \<le> br_max_latency_ms ?r" if "l \<in> fst ` set ?ok" for l
    using fold_min_max(1) [of l "map fst ?ok" "- 1"] fold_min_max(2) [of l "map fst ?ok" 0] that
    by (auto simp: tally_result_def foldl_tally tally_start_def)
  have avg: "br_avg_latency_ms ?r = sum_list (map fst ?ok) div word_of_nat (length (map fst ?ok))"
    if "?ok \<noteq> []"
    using that by (simp add: tally_result_def foldl_tally tally_start_def)
  have between: "br_min_latency_ms ?r \<le> br_avg_latency_ms ?r \<and> br_avg_latency_ms ?r \<le> br_max_latency_ms ?r"
    if "?ok \<noteq> []" "sum_list (map (unat \<circ> fst) ?ok) < 2 ^ 64"
    unfolding avg [OF that(1)] using that small min max
    by (intro average_between) auto
  have none: "br_min_latency_ms ?r = 0 \<and> br_avg_latency_ms ?r = 0 \<and> br_max_latency_ms ?r = 0" if "?ok = []"
    using that by (simp add: tally_result_def foldl_tally tally_start_def)
  have tot: "if get_connected_peer_count m = 0 then m' = m
     else totals (vn_stats m') = (vs_total_broadcasts (vn_stats m) + 1,
          vs_successful_broadcasts (vn_stats m) + word_of_nat (br_successful ?r),
          vs_failed_broadcasts (vn_stats m) + word_of_nat (br_failed ?r),
          vs_total_bytes_sent (vn_stats m) + br_total_bytes_sent ?r)"
    using send_all_totals [OF assms(2)] by (simp add: m' finish_broadcast_def modify_vstats_def totals_def)
  have sums: "br_total_peers ?r = get_connected_peer_count m"
    "br_successful ?r + br_failed ?r = br_total_peers ?r" "br_successful ?r = length ?ok"
    "br_total_bytes_sent ?r = sum_list (map snd ?ok)"
    using ok len count by (simp_all add: tally_result_def foldl_tally tally_start_def)
  show ?thesis
    using res sums between none tot min max by (intro exI [of _ ?r]) (auto simp: split_def)
qed

theorem broadcast_accounting_witness:
  "\<exists>r m'. broadcast_message (\<lambda>_. ''e'') (\<lambda>_. Inr [1]) (\<lambda>_. None) 9 (VM_Ping 1 2)
     ((manager_new 0 [])\<lparr>vn_peers := [(7 :: nat, (vpeer_new 0 7)\<lparr>vp_state := CS_Connected\<rparr>)]\<rparr>) = (Inr r, m')
   \<and> br_successful r + br_failed r = 1"
proof -
  let ?m = "(manager_new 0 [])\<lparr>vn_peers := [(7 :: nat, (vpeer_new 0 7)\<lparr>vp_state := CS_Connected\<rparr>)]\<rparr>"
  have count: "get_connected_peer_count ?m = 1" by (simp add: get_connected_peer_count_def)
  obtain rs m1 where all: "send_all (\<lambda>_. ''e'') (\<lambda>_. Inr [1]) (\<lambda>_. None) (VM_Ping 1 2)
      (connected_addresses ?m) ?m = (rs, m1)" by fastforce
  obtain res m' where run: "broadcast_message (\<lambda>_. ''e'') (\<lambda>_. Inr [1]) (\<lambda>_. None) 9 (VM_Ping 1 2) ?m = (res, m')"
    by fastforce
  from broadcast_accounting [OF _ all run] count run show ?thesis by auto
qed

text \<open>
  C22: the outcome of a connection attempt to a peer of the table (with a handshake that can be
  serialised). It succeeds exactly when the TCP connection is made and
  the handshake is written, whatever the peer answers. The peer ends up connected exactly when the
  answer is the frame of a handshake, whose identity it takes over; with any other non-empty answer
  it stays in the connecting state, from which no reconnection picks it up; otherwise it is failed.
  No other peer is touched.
\<close>

theorem connect_outcome:
  assumes "hm_wf (vn_peers m)" and "hm_get (vn_peers m) a = Some p"
    and "vm_to_bytes serialize (own_handshake m) = Inr hs"
    and "connect_peer show_addr serialize deserialize outcome a m = (r, m')"
  shows "(r = Inr () \<longleftrightarrow> (\<exists>reply. outcome = CN_Connected None reply))
     \<and> (\<exists>p'. hm_get (vn_peers m') a = Some p'
          \<and> (\<forall>bs. outcome = CN_Connected None (RR_Data bs) \<and> bs \<noteq> [] \<longrightarrow>
               (case vm_from_bytes deserialize bs of
                  Inr (VM_Handshake peer_id version capabilities) \<Rightarrow>
                    vp_state p' = CS_Connected \<and> vp_validator_id p' = Some peer_id
                    \<and> vp_version p' = version \<and> vp_failed_attempts p' = 0
                | _ \<Rightarrow> vp_state p' = CS_Connecting \<and> a \<notin> set (failed_peers m')))
          \<and> ((\<forall>bs. outcome = CN_Connected None (RR_Data bs) \<longrightarrow> bs = []) \<longrightarrow>
               vp_state p' = CS_Failed \<and> vp_failed_attempts p' = vp_failed_attempts p + 1))
     \<and> (\<forall>b. b \<noteq> a \<longrightarrow> hm_get (vn_peers m') b = hm_get (vn_peers m) b)"
proof -
  define m1 where "m1 = modify_vpeer a (\<lambda>p. p\<lparr>vp_state := CS_Connecting\<rparr>) m"
  have m1: "hm_get (vn_peers m1) a = Some (p\<lparr>vp_state := CS_Connecting\<rparr>)"
    "hm_wf (vn_peers m1)" "vm_to_bytes serialize (own_handshake m1) = Inr hs"
    "b \<noteq> a \<Longrightarrow> hm_get (vn_peers m1) b = hm_get (vn_peers m) b" for b
    using assms(1-3) by (simp_all add: m1_def modify_vpeer_def own_handshake_def hm_simps)
  have run: "connect_finish serialize deserialize outcome a m1 = (r, m')"
    using assms(2,4) by (simp add: connect_peer_def connect_begin_def m1_def)
  have stuck: "a \<notin> set (failed_peers m1)"
    using m1(1,2) eq_key_imp_eq_value [of "vn_peers m1" a] by (fastforce simp: failed_peers_def)
  have others: "\<forall>b. b \<noteq> a \<longrightarrow> hm_get (vn_peers m') b = hm_get (vn_peers m) b"
    using connect_finish_others [OF run] m1(4) by simp
  show ?thesis
  proof (cases "\<exists>bs. outcome = CN_Connected None (RR_Data bs) \<and> bs \<noteq> []")
    case True
    then obtain bs where bs: "outcome = CN_Connected None (RR_Data bs)" "bs \<noteq> []" by blast
    note answer = connect_finish_answer [OF m1(1,3) bs(2) run [unfolded bs(1)]]
    show ?thesis
      using others answer bs stuck m1(1)
      by (cases "\<exists>i v c. vm_from_bytes deserialize bs = Inr (VM_Handshake i v c)")
         (auto simp: register_handshake_def vpeer_reset_failures_def
            split: sum.split validator_message.split simp del: map_of_eq_Some_iff)
  next
    case False
    show ?thesis
      using connect_finish_fails [OF m1(1,3) run] False others by auto
  qed
qed

theorem connect_outcome_witness:
  "fst (connect_peer (\<lambda>_. []) (\<lambda>_. Inr [1]) (\<lambda>_. Inl ''bad'') (CN_Connected None (RR_Data [0, 0])) 7
     ((manager_new 0 [])\<lparr>vn_peers := [(7 :: nat, vpeer_new 0 7)]\<rparr>)) = Inr ()"
proof -
  let ?m = "(manager_new 0 [])\<lparr>vn_peers := [(7 :: nat, vpeer_new 0 7)]\<rparr>"
  obtain r m' where run: "connect_peer (\<lambda>_. []) (\<lambda>_. Inr [1]) (\<lambda>_. Inl ''bad'')
      (CN_Connected None (RR_Data [0, 0])) 7 ?m = (r, m')" by fastforce
  have "vm_to_bytes (\<lambda>_. Inr [1]) (own_handshake ?m) = Inr [0, 0, 0, 1, 1]"
    by (simp add: vm_to_bytes_def frame_to_bytes_def to_be_bytes_def)
  from connect_outcome [OF _ _ this run] run show ?thesis by simp
qed

text \<open>
  C26: whatever the public methods are called with and whatever the network does, the table of peers
  holds each address once, under the address the peer itself records. \<open>get_stats\<close> always reports the
  size of the table and the number of connected peers. The counter of peers that the statistics keep
  never exceeds the size of the table, and is the size unless \<open>reset_stats\<close> was called, which sets it
  to zero whatever the table holds. (For fewer than \<open>2^64\<close> calls.)
\<close>

theorem validator_table_sound:
  assumes "length calls < 2 ^ 64"
    and "m = fold (validator_step show_addr show_core serialize deserialize) calls (manager_new local_addr validator_id)"
  shows "distinct (map fst (vn_peers m)) \<and> (\<forall>a p. hm_get (vn_peers m) a = Some p \<longrightarrow> vp_address p = a)
     \<and> hm_size (vn_peers m) \<le> length calls
     \<and> unat (vs_peer_count (vn_get_stats m)) = hm_size (vn_peers m)
     \<and> unat (vs_connected_peer_count (vn_get_stats m)) = get_connected_peer_count m
     \<and> unat (vs_peer_count (vn_stats m)) \<le> hm_size (vn_peers m)
     \<and> (VC_ResetStats \<notin> set calls \<longrightarrow> unat (vs_peer_count (vn_stats m)) = hm_size (vn_peers m))"
proof -
  have new: "vtable_ok x 0 (manager_new local_addr validator_id)" for x
    by (simp add: vtable_ok_def manager_new_def broadcast_stats_default_def)
  have ok: "vtable_ok (VC_ResetStats \<notin> set calls) (length calls) m"
    using validator_run_ok [OF new, of calls] assms by simp
  then have size: "hm_size (vn_peers m) < 2 ^ 64" using assms(1) by (simp add: vtable_ok_def)
  have "get_connected_peer_count m \<le> hm_size (vn_peers m)"
    unfolding get_connected_peer_count_def by (rule length_filter_le)
  with size have "unat (word_of_nat (hm_size (vn_peers m)) :: u64) = hm_size (vn_peers m)"
    "unat (word_of_nat (get_connected_peer_count m) :: u64) = get_connected_peer_count m"
    by (simp_all add: unat_of_nat_small)
  then show ?thesis using ok by (simp add: vtable_ok_def vn_get_stats_def get_peer_count_def)
qed

theorem validator_table_sound_witness:
  "\<exists>m :: nat validator_manager. m = fold (validator_step (\<lambda>_. []) (\<lambda>_. []) (\<lambda>_. Inr [1]) (\<lambda>_. Inl ''bad''))
     [VC_Add 0 7, VC_Add 1 7, VC_ResetStats, VC_Add 2 8, VC_Remove 7] (manager_new 0 [])
   \<and> unat (vs_peer_count (vn_get_stats m)) = hm_size (vn_peers m)
   \<and> unat (vs_peer_count (vn_stats m)) \<le> hm_size (vn_peers m)"
proof -
  let ?calls = "[VC_Add 0 7, VC_Add 1 7, VC_ResetStats, VC_Add 2 8, VC_Remove (7 :: nat)]"
  have "length ?calls < 2 ^ 64" by simp
  from validator_table_sound [OF this refl] show ?thesis by blast
qed

end
