(* ===== verification/Validator_Tasks.thy ===== *)
theory Validator_Tasks
  imports Validator_Network Concurrent_Tasks
begin

text \<open>
  The atomic steps of the validator network's tasks: what one step does to the table of peers and
  to the statistics, each of which has a lock of its own.
\<close>

section \<open>Atomic effects on the manager\<close>

definition on_manager ::
  "(('a, 'a validator_peer) hmap \<times> broadcast_stats \<Rightarrow> ('a, 'a validator_peer) hmap \<times> broadcast_stats)
     \<Rightarrow> 'a validator_manager \<Rightarrow> 'a validator_manager" where
  "on_manager f m = (let (peers, stats) = f (vn_peers m, vn_stats m) in m\<lparr>vn_peers := peers, vn_stats := stats\<rparr>)"

lemma fold_on_manager: "fold (\<lambda>e. on_manager (f e)) es m = on_manager (fold f es) m"
  by (induction es arbitrary: m) (simp_all add: on_manager_def split_beta)

lemma hm_modify_unchanged: "hm_modify k (\<lambda>p. p) t = t"
  by (induction t) auto

end
