(* ===== verification/Validator_Listener.thy ===== *)
theory Validator_Listener
  imports Validator_Tasks
begin

text \<open>
  Accepting connections (\<open>accept_connections\<close> of \<open>src/validator_sync.rs\<close>). Every accepted
  connection is a task of its own, so the handlers run concurrently. A task touches the shared
  tables only under their locks, first that of the peers, then that of the statistics: its effects
  are a list of atomic events, and the concurrent runs are the interleavings of these lists. The
  semaphore only delays tasks.
\<close>

section \<open>The effects of a connection\<close>

datatype 'a connection_event =
    CE_Registered 'a bytes u32 bytes
  | CE_Received 'a instant nat
  | CE_Counted 'a nat
  | CE_Closed 'a

primrec event_peer :: "'a connection_event \<Rightarrow> 'a" where
  "event_peer (CE_Registered a _ _ _) = a"
| "event_peer (CE_Received a _ _) = a"
| "event_peer (CE_Counted a _) = a"
| "event_peer (CE_Closed a) = a"

primrec peer_effect :: "'a connection_event \<Rightarrow> 'a validator_peer \<Rightarrow> 'a validator_peer" where
  "peer_effect (CE_Registered _ peer_id version capabilities) = register_handshake peer_id version capabilities"
| "peer_effect (CE_Received _ now n) = vpeer_record_received now (word_of_nat n)"
| "peer_effect (CE_Counted _ n) = (\<lambda>p. p)"
| "peer_effect (CE_Closed _) = (\<lambda>p. p\<lparr>vp_state := CS_Disconnected\<rparr>)"

primrec stats_effect :: "'a connection_event \<Rightarrow> broadcast_stats \<Rightarrow> broadcast_stats" where
  "stats_effect (CE_Registered _ _ _ _) = (\<lambda>s. s)"
| "stats_effect (CE_Received _ _ _) = (\<lambda>s. s)"
| "stats_effect (CE_Counted _ n) =
     (\<lambda>s. s\<lparr>vs_total_messages_received := vs_total_messages_received s + 1,
            vs_total_bytes_received := vs_total_bytes_received s + word_of_nat n\<rparr>)"
| "stats_effect (CE_Closed _) = (\<lambda>s. s)"

definition apply_event :: "'a connection_event \<Rightarrow> 'a validator_manager \<Rightarrow> 'a validator_manager" where
  "apply_event e = on_manager (apply_to event_peer peer_effect stats_effect e)"

interpretation connections: task_events event_peer peer_effect stats_effect
proof
  fix e e' :: "'a connection_event"
  show "stats_effect e \<circ> stats_effect e' = stats_effect e' \<circ> stats_effect e"
    by (cases e; cases e') (simp_all add: fun_eq_iff algebra_simps)
qed

fun receive_events ::
  "(bytes \<Rightarrow> string + validator_message) \<Rightarrow> 'a \<Rightarrow> (instant \<times> read_result) list \<Rightarrow> 'a connection_event list" where
  "receive_events de addr [] = []"
| "receive_events de addr ((now, RR_Data bs) # rest) =
     (if bs = [] then [CE_Closed addr]
      else (case vm_from_bytes de bs of Inl _ \<Rightarrow> [] | Inr _ \<Rightarrow> [CE_Received addr now (length bs), CE_Counted addr (length bs)])
           @ receive_events de addr rest)"
| "receive_events de addr ((now, RR_Error e) # rest) = [CE_Closed addr]"
| "receive_events de addr ((now, RR_Timeout) # rest) = [CE_Closed addr]"

definition connection_events ::
  "(validator_message \<Rightarrow> string + bytes) \<Rightarrow> (bytes \<Rightarrow> string + validator_message) \<Rightarrow> validator_message
     \<Rightarrow> string option \<Rightarrow> read_result \<Rightarrow> (instant \<times> read_result) list \<Rightarrow> 'a \<Rightarrow> 'a connection_event list" where
  "connection_events serialize deserialize handshake write reply reads addr =
     (case (vm_to_bytes serialize handshake, write, reply) of
        (Inr _, None, RR_Data (b # bs)) \<Rightarrow>
          (case vm_from_bytes deserialize (b # bs) of
             Inl _ \<Rightarrow> []
           | Inr msg \<Rightarrow>
               (case msg of
                  VM_Handshake peer_id version capabilities \<Rightarrow> [CE_Registered addr peer_id version capabilities]
                | _ \<Rightarrow> []) @ receive_events deserialize addr reads)
      | _ \<Rightarrow> [])"

section \<open>The accept loop\<close>

text \<open>What \<open>accept\<close> returns: an error, or a connection and what its socket will do.\<close>

datatype 'a accepted =
    AX_Error string
  | AX_Connection 'a "string option" read_result "(instant \<times> read_result) list"

text \<open>
  Without a listener the call fails. Otherwise it never returns; \<open>Inr\<close> gives the tasks it spawns
  for the connections accepted so far.
\<close>

definition accept_connections ::
  "(validator_message \<Rightarrow> string + bytes) \<Rightarrow> (bytes \<Rightarrow> string + validator_message) \<Rightarrow> 'a accepted list
     \<Rightarrow> 'a validator_manager \<Rightarrow> core_error + 'a connection_event list list" where
  "accept_connections serialize deserialize accepts m =
     (if vn_listening m
      then Inr [connection_events serialize deserialize (own_handshake m) write reply reads addr.
                AX_Connection addr write reply reads \<leftarrow> accepts]
      else Inl (InvalidData ''Listener not started''))"

text \<open>One connection after the other, by the handler itself.\<close>

definition serve_one ::
  "(validator_message \<Rightarrow> string + bytes) \<Rightarrow> (bytes \<Rightarrow> string + validator_message) \<Rightarrow> 'a accepted
     \<Rightarrow> 'a validator_manager \<Rightarrow> 'a validator_manager" where
  "serve_one serialize deserialize accept m =
     (case accept of
        AX_Error _ \<Rightarrow> m
      | AX_Connection addr write reply reads \<Rightarrow>
          snd (handle_peer_connection serialize deserialize write reply reads addr m))"

section \<open>Events are the handler\<close>

lemma fold_apply_event:
  "fold apply_event es m = on_manager (fold (apply_to event_peer peer_effect stats_effect) es) m"
  unfolding apply_event_def by (rule fold_on_manager)

lemma fold_apply_handshake: "own_handshake (fold apply_event es m) = own_handshake m"
  by (simp add: fold_apply_event on_manager_def own_handshake_def split_beta)

lemma apply_event_simps [simp]:
  "apply_event (CE_Registered a i v c) m = modify_vpeer a (register_handshake i v c) m"
  "apply_event (CE_Received a now n) m = modify_vpeer a (vpeer_record_received now (word_of_nat n)) m"
  "apply_event (CE_Counted a n) m =
     modify_vstats (\<lambda>s. s\<lparr>vs_total_messages_received := vs_total_messages_received s + 1,
                      vs_total_bytes_received := vs_total_bytes_received s + word_of_nat n\<rparr>) m"
  "apply_event (CE_Closed a) m = modify_vpeer a (\<lambda>p. p\<lparr>vp_state := CS_Disconnected\<rparr>) m"
  by (simp_all add: apply_event_def on_manager_def apply_to_def modify_vpeer_def modify_vstats_def
      hm_modify_unchanged)

lemma receive_loop_events: "receive_loop de a reads m = fold apply_event (receive_events de a reads) m"
  by (induction de a reads m rule: receive_loop.induct)
     (auto split: sum.split)

lemma handler_events:
  "snd (handle_peer_connection serialize deserialize write reply reads a m) =
     fold apply_event (connection_events serialize deserialize (own_handshake m) write reply reads a) m"
  by (auto simp: handle_peer_connection_def connection_events_def receive_loop_events
      split: sum.split option.split read_result.split list.split validator_message.split)

lemma serve_all_events:
  "fold (serve_one ser de) accepts m =
     fold apply_event (concat [connection_events ser de (own_handshake m) write reply reads addr.
                AX_Connection addr write reply reads \<leftarrow> accepts]) m"
  by (induction accepts arbitrary: m)
     (auto simp: serve_one_def handler_events fold_apply_handshake split: accepted.split)

section \<open>Connections of different peers\<close>

lemma receive_events_peer: "e \<in> set (receive_events de a reads) \<Longrightarrow> event_peer e = a"
  by (induction de a reads rule: receive_events.induct) (auto split: if_splits sum.splits)

lemma connection_events_peer:
  "e \<in> set (connection_events ser de hs write reply reads a) \<Longrightarrow> event_peer e = a"
  by (auto simp: connection_events_def dest: receive_events_peer
      split: sum.splits option.splits read_result.splits list.splits validator_message.splits)

text \<open>The addresses of the accepted connections.\<close>

definition accepted_peers :: "'a accepted list \<Rightarrow> 'a list" where
  "accepted_peers accepts = [addr. AX_Connection addr write reply reads \<leftarrow> accepts]"

lemma accepted_tasks_apart:
  assumes "distinct (accepted_peers accepts)"
  shows "apart event_peer [connection_events ser de hs write reply reads addr. AX_Connection addr write reply reads \<leftarrow> accepts]"
proof -
  let ?tasks = "\<lambda>as. [connection_events ser de hs write reply reads addr. AX_Connection addr write reply reads \<leftarrow> as]"
  have len: "length (?tasks as) = length (accepted_peers as)" for as
    by (induction as) (auto simp: accepted_peers_def split: accepted.split)
  have peers: "\<forall>i<length (?tasks as). \<forall>e\<in>set (?tasks as ! i). event_peer e = accepted_peers as ! i" for as
  proof (induction as)
    case Nil
    then show ?case by simp
  next
    case (Cons c as)
    then show ?case
      by (cases c) (auto simp: accepted_peers_def nth_Cons dest!: connection_events_peer split: nat.split)
  qed
  show ?thesis by (rule apart_distinct [OF len assms peers])
qed

section \<open>Property\<close>

text \<open>
  C3: the concurrent handlers behave like one after the other. When the accept loop runs and no two
  of the accepted connections come from the same address, every interleaving of their effects on
  the shared tables ends in the state that serving the connections one by one, in the order they
  were accepted, produces. So no update of a peer or of a counter is lost.
\<close>

theorem concurrent_connections_serialise:
  assumes "hm_wf (vn_peers m)" and "distinct (accepted_peers accepts)"
    and "accept_connections serialize deserialize accepts m = Inr tasks"
    and "interleaving tasks es"
  shows "fold apply_event es m = fold (serve_one serialize deserialize) accepts m"
proof -
  have tasks: "tasks = [connection_events serialize deserialize (own_handshake m) write reply reads addr.
      AX_Connection addr write reply reads \<leftarrow> accepts]"
    using assms(3) by (auto simp: accept_connections_def split: if_splits)
  then have "apart event_peer tasks" using accepted_tasks_apart [OF assms(2)] by simp
  from connections.order_irrelevant [OF assms(4) this assms(1)] show ?thesis
    by (simp add: tasks serve_all_events fold_apply_event on_manager_def)
qed

definition listening_manager :: "nat validator_manager" where
  "listening_manager = (manager_new 0 [])\<lparr>vn_listening := True,
     vn_peers := [(7, vpeer_new 0 7), (8, vpeer_new 0 8)]\<rparr>"

definition two_connections :: "nat accepted list" where
  "two_connections = [AX_Connection 7 None (RR_Data [0, 0, 0, 0]) [(5, RR_Data [0, 0, 0, 0]), (6, RR_Timeout)],
     AX_Error ''reset'', AX_Connection 8 None (RR_Data [0, 0, 0, 0]) [(4, RR_Data [])]]"

theorem concurrent_connections_serialise_witness:
  "fold apply_event [CE_Received 7 5 4, CE_Closed 8, CE_Counted 7 4, CE_Closed 7] listening_manager =
     fold (serve_one (\<lambda>_. Inr [1]) (\<lambda>_. Inr (VM_Ping 1 2))) two_connections listening_manager"
proof (rule concurrent_connections_serialise)
  show "hm_wf (vn_peers listening_manager)" and "distinct (accepted_peers two_connections)"
    by (simp_all add: listening_manager_def accepted_peers_def two_connections_def)
  show "accept_connections (\<lambda>_. Inr [1]) (\<lambda>_. Inr (VM_Ping 1 2)) two_connections listening_manager =
      Inr [[CE_Received 7 5 4, CE_Counted 7 4, CE_Closed 7], [CE_Closed 8]]"
    by (simp add: accept_connections_def listening_manager_def two_connections_def connection_events_def
        vm_to_bytes_def frame_to_bytes_def vm_from_bytes_def frame_from_bytes_def from_be_bytes_def)
  show "interleaving [[CE_Received 7 5 4, CE_Counted 7 4, CE_Closed 7], [CE_Closed 8]]
      [CE_Received (7 :: nat) 5 4, CE_Closed 8, CE_Counted 7 4, CE_Closed 7]"
    by (rule interleaving_left, rule interleaving_right, rule interleaving_left, rule interleaving_left,
        rule all_done) simp
qed

end
