(* ===== verification/Validator_Broadcast.thy ===== *)
theory Validator_Broadcast
  imports Validator_Tasks
begin

text \<open>
  The tasks of a broadcast (\<open>broadcast_message\<close> and \<open>send_message_with_retry_real\<close> of
  \<open>src/validator_sync.rs\<close>). One task per connected peer runs the retry loop; the tasks run
  concurrently and update the peers and the statistics under separate locks.
\<close>

section \<open>The effects of a send\<close>

datatype 'a send_event =
    SE_Retried 'a
  | SE_Recorded 'a u64 instant u64
  | SE_Counted 'a
  | SE_GaveUp 'a string

primrec send_peer :: "'a send_event \<Rightarrow> 'a" where
  "send_peer (SE_Retried a) = a"
| "send_peer (SE_Recorded a _ _ _) = a"
| "send_peer (SE_Counted a) = a"
| "send_peer (SE_GaveUp a _) = a"

primrec send_peer_effect :: "'a send_event \<Rightarrow> 'a validator_peer \<Rightarrow> 'a validator_peer" where
  "send_peer_effect (SE_Retried _) = (\<lambda>p. p)"
| "send_peer_effect (SE_Recorded _ latency now nbytes) = vpeer_record_sent now nbytes latency"
| "send_peer_effect (SE_Counted _) = (\<lambda>p. p)"
| "send_peer_effect (SE_GaveUp _ err) = vpeer_record_failure err"

primrec send_stats_effect :: "'a send_event \<Rightarrow> broadcast_stats \<Rightarrow> broadcast_stats" where
  "send_stats_effect (SE_Retried _) = (\<lambda>s. s\<lparr>vs_message_retries := vs_message_retries s + 1\<rparr>)"
| "send_stats_effect (SE_Recorded _ _ _ _) = (\<lambda>s. s)"
| "send_stats_effect (SE_Counted _) = (\<lambda>s. s\<lparr>vs_total_messages_sent := vs_total_messages_sent s + 1\<rparr>)"
| "send_stats_effect (SE_GaveUp _ _) = (\<lambda>s. s)"

definition apply_send :: "'a send_event \<Rightarrow> 'a validator_manager \<Rightarrow> 'a validator_manager" where
  "apply_send e = on_manager (apply_to send_peer send_peer_effect send_stats_effect e)"

interpretation sends: task_events send_peer send_peer_effect send_stats_effect
proof
  fix e e' :: "'a send_event"
  show "send_stats_effect e \<circ> send_stats_effect e' = send_stats_effect e' \<circ> send_stats_effect e"
    by (cases e; cases e') (simp_all add: fun_eq_iff algebra_simps)
qed

text \<open>The retry loop with \<open>left\<close> attempts to go, as the list of its effects.\<close>

fun send_trace ::
  "(nat \<Rightarrow> core_error + u64 \<times> instant \<times> u64) \<Rightarrow> (core_error \<Rightarrow> string) \<Rightarrow> 'a \<Rightarrow> nat \<Rightarrow> nat
     \<Rightarrow> core_error option \<Rightarrow> 'a send_event list" where
  "send_trace net sc addr max_retries 0 last_error =
     [SE_GaveUp addr (case last_error of Some e \<Rightarrow> sc e | None \<Rightarrow> ''Unknown error'')]"
| "send_trace net sc addr max_retries (Suc left) last_error =
     (case net (max_retries - Suc left) of
        Inr (latency, now, nbytes) \<Rightarrow> [SE_Recorded addr latency now nbytes, SE_Counted addr]
      | Inl e \<Rightarrow> SE_Retried addr # send_trace net sc addr max_retries left (Some e))"

text \<open>The task of one peer; \<open>None\<close> is a task that did not run.\<close>

definition send_task ::
  "(core_error \<Rightarrow> string) \<Rightarrow> (validator_message \<Rightarrow> string + bytes) \<Rightarrow> ('a \<Rightarrow> (nat \<Rightarrow> attempt) option)
     \<Rightarrow> validator_message \<Rightarrow> usize \<Rightarrow> 'a \<Rightarrow> 'a send_event list" where
  "send_task sc ser net message max_retries addr =
     (case net addr of
        None \<Rightarrow> []
      | Some n \<Rightarrow> send_trace (\<lambda>i. attempt_result sc ser message (n i)) sc addr max_retries max_retries None)"

text \<open>The sends that succeeded in a run: the latency and the bytes of each, in the order they were recorded.\<close>

definition recorded :: "'a send_event list \<Rightarrow> (u64 \<times> u64) list" where
  "recorded es = [(latency, nbytes). SE_Recorded _ latency _ nbytes \<leftarrow> es]"

lemma recorded_simps [simp]:
  "recorded [] = []"
  "recorded (SE_Retried a # es) = recorded es"
  "recorded (SE_Recorded a l t n # es) = (l, n) # recorded es"
  "recorded (SE_Counted a # es) = recorded es"
  "recorded (SE_GaveUp a x # es) = recorded es"
  "recorded (es @ es') = recorded es @ recorded es'"
  by (simp_all add: recorded_def)

lemma recorded_mset:
  assumes "mset es = mset es'"
  shows "mset (recorded es) = mset (recorded es')"
proof -
  have cons: "recorded (e # es) = recorded [e] @ recorded es" for e :: "'a send_event" and es
    by (cases e) simp_all
  have "mset (recorded es) = (\<Sum>e\<in>#mset es. mset (recorded [e]))" for es :: "'a send_event list"
  proof (induction es)
    case (Cons e es)
    show ?case unfolding cons [of e es] using Cons.IH by simp
  qed simp
  from this [of es] this [of es'] show ?thesis by (simp only: assms)
qed

section \<open>Events are the retry loop\<close>

lemma fold_apply_send:
  "fold apply_send es m = on_manager (fold (apply_to send_peer send_peer_effect send_stats_effect) es) m"
  unfolding apply_send_def by (rule fold_on_manager)

lemma apply_send_simps [simp]:
  "apply_send (SE_Retried a) m = count_retry m"
  "apply_send (SE_Recorded a latency now n) m = modify_vpeer a (vpeer_record_sent now n latency) m"
  "apply_send (SE_Counted a) m = modify_vstats (\<lambda>s. s\<lparr>vs_total_messages_sent := vs_total_messages_sent s + 1\<rparr>) m"
  "apply_send (SE_GaveUp a err) m = modify_vpeer a (vpeer_record_failure err) m"
  by (simp_all add: apply_send_def on_manager_def apply_to_def modify_vpeer_def modify_vstats_def
      hm_modify_unchanged count_retry_def)

lemma send_attempts_trace:
  "send_attempts net sc addr n left b e m = (r, sleeps, m') \<Longrightarrow> m' = fold apply_send (send_trace net sc addr n left e) m"
proof (induction net sc addr n left b e m arbitrary: r sleeps m' rule: send_attempts.induct)
  case (1 net sc addr n b e m)
  then show ?case by (simp add: give_up_def)
next
  case (2 net sc addr n left b e m)
  show ?case
  proof (cases "net (n - Suc left)")
    case (Inl a)
    then show ?thesis
      using 2 by (auto simp: Let_def split: prod.splits if_splits)
  next
    case (Inr a)
    then show ?thesis
      using "2.prems" by (cases a) (simp add: record_success_def)
  qed
qed

lemma send_attempts_recorded:
  "send_attempts net sc addr n left b e m = (r, sleeps, m') \<Longrightarrow>
     recorded (send_trace net sc addr n left e) = (case r of Inl _ \<Rightarrow> [] | Inr ok \<Rightarrow> [ok])"
proof (induction net sc addr n left b e m arbitrary: r sleeps m' rule: send_attempts.induct)
  case (1 net sc addr n b e m)
  then show ?case by (auto simp: give_up_def)
next
  case (2 net sc addr n left b e m)
  show ?case
  proof (cases "net (n - Suc left)")
    case (Inl a)
    then show ?thesis using 2 by (auto simp: Let_def split: prod.splits if_splits)
  next
    case (Inr a)
    then show ?thesis using "2.prems" by (cases a) auto
  qed
qed

lemma send_attempts_frame:
  "send_attempts net sc addr n left b e m = (r, sleeps, m')
     \<Longrightarrow> vn_max_retries m' = vn_max_retries m \<and> vn_retry_backoff m' = vn_retry_backoff m"
  by (drule send_attempts_trace) (simp add: fold_apply_send on_manager_def split_beta)

lemma send_all_trace:
  "send_all sc ser net message addrs m = (rs, m')
     \<Longrightarrow> m' = fold apply_send (concat (map (send_task sc ser net message (vn_max_retries m)) addrs)) m
       \<and> successes rs = recorded (concat (map (send_task sc ser net message (vn_max_retries m)) addrs))"
proof (induction addrs arbitrary: m rs)
  case Nil
  then show ?case by simp
next
  case (Cons addr addrs)
  obtain x m1 where one: "(case net addr of None \<Rightarrow> (None, m)
      | Some n \<Rightarrow> (case send_message_with_retry sc ser n addr message m of
                    (Inl _, _, m') \<Rightarrow> (None, m') | (Inr ok, _, m') \<Rightarrow> (Some ok, m'))) = (x, m1)"
    by fastforce
  have "m1 = fold apply_send (send_task sc ser net message (vn_max_retries m) addr) m"
    and frame: "vn_max_retries m1 = vn_max_retries m"
    using one by (auto simp: send_message_with_retry_def send_task_def split: option.splits prod.splits sum.splits
        dest: send_attempts_trace send_attempts_frame)
  moreover have "successes [x] = recorded (send_task sc ser net message (vn_max_retries m) addr)"
    using one by (auto simp: send_message_with_retry_def send_task_def split: option.splits prod.splits sum.splits
        dest!: send_attempts_recorded)
  moreover obtain rs1 where "send_all sc ser net message addrs m1 = (rs1, m')" and "rs = x # rs1"
    using Cons.prems one by (auto simp: Let_def split: prod.splits)
  note Cons.IH [OF this(1)] this(2)
  ultimately show ?case using frame by (cases x) auto
qed

lemma send_trace_peer: "e \<in> set (send_trace net sc addr n left err) \<Longrightarrow> send_peer e = addr"
  by (induction net sc addr n left err rule: send_trace.induct) (auto split: sum.splits)

lemma send_tasks_apart:
  "distinct addrs \<Longrightarrow> apart send_peer (map (send_task sc ser net message n) addrs)"
  by (rule apart_distinct) (auto simp: send_task_def dest: send_trace_peer split: option.splits)

lemma connected_filter:
  "[addr. (addr, p) \<leftarrow> ps, vp_state p = CS_Connected] = map fst (filter (\<lambda>(_, p). vp_state p = CS_Connected) ps)"
  by (induction ps) auto

lemma connected_addresses_distinct:
  assumes "hm_wf (vn_peers m)"
  shows "distinct (connected_addresses m)"
proof -
  have "connected_addresses m = map fst (filter (\<lambda>(_, p). vp_state p = CS_Connected) (vn_peers m))"
    unfolding connected_addresses_def by (rule connected_filter)
  then show ?thesis
    using assms by (simp add: distinct_map inj_on_def distinct_filter)
qed

lemma broadcast_answers: "\<exists>r m'. broadcast_message sc ser net d message m = (Inr r, m')"
  by (simp add: broadcast_message_def Let_def split_beta)

text \<open>The tally depends on the successes as a multiset and on the number of results.\<close>

definition report :: "nat \<Rightarrow> u64 \<Rightarrow> (u64 \<times> u64) list \<Rightarrow> broadcast_result" where
  "report n duration_ms oks =
     \<lparr>br_total_peers = n, br_successful = length oks, br_failed = n - length oks,
      br_avg_latency_ms = (if oks = [] then 0 else sum_list (map fst oks) div word_of_nat (length oks)),
      br_min_latency_ms = (if \<forall>(latency, _)\<in>set oks. latency = - 1 then 0 else Min (fst ` set oks)),
      br_max_latency_ms = (if oks = [] then 0 else Max (fst ` set oks)),
      br_total_bytes_sent = sum_list (map snd oks), br_duration_ms = duration_ms\<rparr>"

lemma fold_min_Min:
  fixes b :: "'b::linorder"
  shows "fold min xs b = Min (insert b (set xs))" and "fold max xs b = Max (insert b (set xs))"
proof (induction xs arbitrary: b)
  case (Cons x xs)
  { case 1 then show ?case by (cases "xs = []") (simp_all add: Cons.IH ac_simps) }
  { case 2 then show ?case by (cases "xs = []") (simp_all add: Cons.IH ac_simps) }
qed simp_all

lemma tally_report:
  assumes "length rs = n"
  shows "tally_result n duration_ms (foldl tally_step tally_start rs) = report n duration_ms (successes rs)"
proof -
  let ?oks = "successes rs"
  have min: "fold min (map fst ?oks) (- 1) = (if ?oks = [] then - 1 else Min (fst ` set ?oks))"
    and max: "fold max (map fst ?oks) 0 = (if ?oks = [] then 0 else Max (fst ` set ?oks))"
    by (auto simp: fold_min_Min Min_insert Max_insert min_absorb2 max_absorb2)
  have least: "Min (fst ` set ?oks) = - 1 \<longleftrightarrow> (\<forall>(latency, _)\<in>set ?oks. latency = - 1)" if "?oks \<noteq> []"
  proof
    assume eq: "Min (fst ` set ?oks) = - 1"
    have "latency = - 1" if "(latency, k) \<in> set ?oks" for latency k
    proof -
      have "Min (fst ` set ?oks) \<le> latency" using that by (intro Min_le) force+
      then show ?thesis unfolding eq by (simp add: antisym)
    qed
    then show "\<forall>(latency, _)\<in>set ?oks. latency = - 1" by blast
  next
    assume all: "\<forall>(latency, _)\<in>set ?oks. latency = - 1"
    have "Min (fst ` set ?oks) \<in> fst ` set ?oks" using that by (intro Min_in) simp_all
    then show "Min (fst ` set ?oks) = - 1" using all by auto
  qed
  show ?thesis
    using least assms by (auto simp: tally_result_def foldl_tally tally_start_def report_def min max)
qed

lemma report_mset: "mset oks = mset oks' \<Longrightarrow> report n duration_ms oks = report n duration_ms oks'"
proof -
  assume eq: "mset oks = mset oks'"
  then have "length oks = length oks'" and "set oks = set oks'" and "oks = [] \<longleftrightarrow> oks' = []"
    by (auto dest: mset_eq_length mset_eq_setD)
  moreover have "sum_list (map f oks) = sum_list (map f oks')" for f :: "u64 \<times> u64 \<Rightarrow> u64"
    using eq by (metis mset_map sum_mset_sum_list)
  ultimately show ?thesis unfolding report_def by simp
qed

section \<open>Property\<close>

text \<open>
  C5: the parallel sends of a broadcast do not interfere. However the effects of the tasks on the
  peers and on the statistics interleave, the manager ends up as if the peers had been served one
  after the other: no update is lost. The report can be read off that run: the successes are the
  sends it records, their number, bytes, least, greatest and average latency are those of the
  report, and the other peers count as failed. Two managers with the same connected peers and the
  same number of retries get the same report from the same network. (The table of peers is a map: no key
  twice.)
\<close>

theorem concurrent_broadcast_serialises:
  assumes "hm_wf (vn_peers m)"
    and "interleaving (map (send_task show_core serialize net message (vn_max_retries m)) (connected_addresses m)) es"
    and "broadcast_message show_core serialize net duration_ms message m = (res, m')"
  shows "res = Inr (report (get_connected_peer_count m) duration_ms (recorded es))
     \<and> m' = (if get_connected_peer_count m = 0 then m
             else finish_broadcast (report (get_connected_peer_count m) duration_ms (recorded es)) (fold apply_send es m))
     \<and> length (recorded es) \<le> get_connected_peer_count m
     \<and> (connected_addresses m2 = connected_addresses m \<and> vn_max_retries m2 = vn_max_retries m \<longrightarrow>
          fst (broadcast_message show_core serialize net duration_ms message m2) = res)"
proof -
  let ?addrs = "connected_addresses m" and ?n = "get_connected_peer_count m"
  let ?tasks = "map (send_task show_core serialize net message (vn_max_retries m)) ?addrs"
  have n: "length ?addrs = ?n" by (rule length_connected_addresses)
  have broadcast: "broadcast_message show_core serialize net duration_ms message k =
      (Inr (report ?n duration_ms (recorded (concat ?tasks))),
       if ?n = 0 then k else finish_broadcast (report ?n duration_ms (recorded (concat ?tasks)))
                               (fold apply_send (concat ?tasks) k))"
    if same: "connected_addresses k = ?addrs" "vn_max_retries k = vn_max_retries m" for k
  proof -
    obtain rs k1 where all: "send_all show_core serialize net message ?addrs k = (rs, k1)" by fastforce
    have len: "length rs = ?n" using send_all_length [OF all] n by simp
    show ?thesis
      using broadcast_message_eq [OF all [folded same(1)], of duration_ms] send_all_trace [OF all] n
      unfolding same by (auto simp: tally_report [OF len] Let_def)
  qed
  have apart: "apart send_peer ?tasks"
    by (rule send_tasks_apart [OF connected_addresses_distinct [OF assms(1)]])
  have run: "fold apply_send es m = fold apply_send (concat ?tasks) m"
    using sends.order_irrelevant [OF assms(2) apart assms(1)] by (simp add: fold_apply_send on_manager_def)
  have same: "mset (recorded es) = mset (recorded (concat ?tasks))"
    using interleaving_same [OF assms(2) apart] by (intro recorded_mset) blast
  obtain rs m1 where all: "send_all show_core serialize net message ?addrs m = (rs, m1)" by fastforce
  have "length (recorded es) \<le> ?n"
    using length_successes_le [of rs] send_all_length [OF all] send_all_trace [OF all] n mset_eq_length [OF same] by simp
  then show ?thesis
    using broadcast [of m] broadcast [of m2] assms(3) by (auto simp: run report_mset [OF same])
qed

definition two_peers :: "nat validator_manager" where
  "two_peers = (manager_new 0 [])\<lparr>vn_peers := [(7, (vpeer_new 0 7)\<lparr>vp_state := CS_Connected\<rparr>),
     (8, (vpeer_new 0 8)\<lparr>vp_state := CS_Connected\<rparr>)]\<rparr>"

definition one_retry :: "nat \<Rightarrow> (nat \<Rightarrow> attempt) option" where
  "one_retry a = Some (\<lambda>i. if a = 7 \<and> i = 0 then AT_SendTimeout else AT_Sent 5 20)"

theorem concurrent_broadcast_serialises_witness:
  "\<exists>r m'. broadcast_message (\<lambda>_. ''e'') (\<lambda>_. Inr []) one_retry 9 (VM_Ping 1 2) two_peers = (Inr r, m')
     \<and> br_successful r = 2 \<and> br_total_bytes_sent r = 8
     \<and> vn_peers m' = vn_peers (fold apply_send [SE_Retried 7, SE_Recorded 8 5 20 4, SE_Recorded 7 5 20 4,
          SE_Counted 8, SE_Counted 7] two_peers)"
proof -
  let ?es = "[SE_Retried 7, SE_Recorded 8 5 20 4, SE_Recorded 7 5 20 4, SE_Counted 8, SE_Counted (7 :: nat)]"
  let ?tasks = "map (send_task (\<lambda>_. ''e'') (\<lambda>_. Inr []) one_retry (VM_Ping 1 2) (vn_max_retries two_peers))
     (connected_addresses two_peers)"
  have three: "vn_max_retries two_peers = Suc (Suc (Suc 0))" and wf: "hm_wf (vn_peers two_peers)"
    by (simp_all add: two_peers_def manager_new_def)
  have frame: "vm_to_bytes (\<lambda>_. Inr []) (VM_Ping 1 2) = Inr [0, 0, 0, 0]"
    by (simp add: vm_to_bytes_def frame_to_bytes_def to_be_bytes_def)
  have "connected_addresses two_peers = [7, 8]"
    by (simp add: connected_addresses_def two_peers_def)
  then have "?tasks = [[SE_Retried 7, SE_Recorded 7 5 20 4, SE_Counted 7], [SE_Recorded 8 5 20 4, SE_Counted 8]]"
    by (simp add: three send_task_def one_retry_def attempt_result_def frame max_message_len_def)
  moreover have "interleaving [[SE_Retried 7, SE_Recorded 7 5 20 4, SE_Counted 7], [SE_Recorded 8 5 20 4, SE_Counted 8]] ?es"
    by (rule interleaving_left, rule interleaving_right, rule interleaving_left, rule interleaving_right,
        rule interleaving_left, rule all_done) simp
  ultimately have mix: "interleaving ?tasks ?es" by simp
  obtain res m' where run: "broadcast_message (\<lambda>_. ''e'') (\<lambda>_. Inr []) one_retry 9 (VM_Ping 1 2) two_peers = (res, m')"
    by fastforce
  have two: "get_connected_peer_count two_peers = 2"
    by (simp add: get_connected_peer_count_def two_peers_def)
  show ?thesis
    using concurrent_broadcast_serialises [OF wf mix run, of two_peers] unfolding run two
    by (intro exI [of _ "report 2 9 (recorded ?es)"] exI [of _ m'])
       (simp add: finish_broadcast_def modify_vstats_def [of _ "_ :: nat validator_manager"] report_def del: fold.simps)
qed

end
