(* ===== verification/Network_Handle.thy ===== *)
theory Network_Handle
  imports Gossip Peers Mining_Pool
begin

text \<open>
  The handle that the rest of the node holds (\<open>src/lib.rs\<close>): a gossip protocol, a peer manager and
  possibly a mining pool. \<open>bincode\<close>'s serialisers for the types of \<open>silver-core\<close> are arguments.
\<close>

section \<open>The handle\<close>

record ('p, 'a, 'h, 'id) network_handle =
  nh_gossip :: "('h, 'id) gossip_protocol"
  nh_peer_manager :: "('p, 'a) peer_manager"
  nh_pool_manager :: "mining_pool option"

definition handle_new ::
  "('h, 'id) gossip_protocol \<Rightarrow> ('p, 'a) peer_manager \<Rightarrow> ('p, 'a, 'h, 'id) network_handle" where
  "handle_new gossip peer_manager =
     \<lparr>nh_gossip = gossip, nh_peer_manager = peer_manager, nh_pool_manager = None\<rparr>"

definition handle_with_mining_pool ::
  "('h, 'id) gossip_protocol \<Rightarrow> ('p, 'a) peer_manager \<Rightarrow> mining_pool \<Rightarrow> ('p, 'a, 'h, 'id) network_handle" where
  "handle_with_mining_pool gossip peer_manager pool_manager =
     \<lparr>nh_gossip = gossip, nh_peer_manager = peer_manager, nh_pool_manager = Some pool_manager\<rparr>"

definition broadcast_transaction ::
  "(bytes \<Rightarrow> 'id) \<Rightarrow> ('tx \<Rightarrow> string + bytes) \<Rightarrow> instant \<Rightarrow> 'tx \<Rightarrow> ('p, 'a, 'h, 'id) network_handle
     \<Rightarrow> (network_error + unit) \<times> ('p, 'a, 'h, 'id) network_handle" where
  "broadcast_transaction message_id_new serialize now tx handle =
     (case serialize tx of
        Inl e \<Rightarrow> (Inl (Serialization e), handle)
      | Inr data \<Rightarrow>
          (let (r, g) = broadcast message_id_new now MT_Transaction data (nh_gossip handle)
           in (r, handle\<lparr>nh_gossip := g\<rparr>)))"

definition broadcast_batch ::
  "(bytes \<Rightarrow> 'id) \<Rightarrow> ('batch \<Rightarrow> string + bytes) \<Rightarrow> instant \<Rightarrow> 'batch \<Rightarrow> ('p, 'a, 'h, 'id) network_handle
     \<Rightarrow> (network_error + unit) \<times> ('p, 'a, 'h, 'id) network_handle" where
  "broadcast_batch message_id_new serialize now batch handle =
     (case serialize batch of
        Inl e \<Rightarrow> (Inl (Serialization e), handle)
      | Inr data \<Rightarrow>
          (let (r, g) = broadcast message_id_new now MT_Batch data (nh_gossip handle)
           in (r, handle\<lparr>nh_gossip := g\<rparr>)))"

definition handle_mining_pool :: "('p, 'a, 'h, 'id) network_handle \<Rightarrow> mining_pool option" where
  "handle_mining_pool handle = nh_pool_manager handle"

section \<open>Lemmas\<close>

lemma broadcast_cached:
  assumes "broadcast_topic message_type = Inr topic" and "hm_has (gp_topics g) topic"
    and "\<not> gp_cache_poisoned g" and "hm_has (gp_cache g) (message_id_new data)"
  shows "broadcast message_id_new now message_type data g = (Inr (), g)"
  using assms by (simp add: broadcast_def)

lemma broadcast_accepted:
  assumes "broadcast message_id_new now message_type data g = (Inr (), g')"
    and "broadcast_topic message_type = Inr topic"
  shows "hm_has (gp_cache g') (message_id_new data) \<and> \<not> gp_cache_poisoned g'
    \<and> hm_has (gp_topics g) topic \<and> gp_topics g' = gp_topics g
    \<and> gs_total_sent (gp_stats g') = gs_total_sent (gp_stats g)
           + (if hm_has (gp_cache g) (message_id_new data) then 0 else 1)"
  using assms
  by (auto simp: broadcast_def with_stats_def Let_def hm_simps split: if_splits)

section \<open>Property\<close>

text \<open>
  C27: broadcasting through the handle is idempotent, and blind to the topic. Let the batch topic be
  subscribed, and the transaction and the batch be serialisable. A transaction broadcast that
  succeeded leaves the message in the cache and counts it once unless it was there; repeating it,
  at any later time, succeeds and changes nothing at all, and neither does the broadcast of a batch
  with the same message identifier, although no subscriber of the batch topic was ever told. The
  peers, the mining pool and the subscriptions are never touched.
\<close>

theorem handle_broadcast_idempotent:
  assumes "serialize_tx tx = Inr data"
    and "broadcast_transaction message_id_new serialize_tx now tx handle = (Inr (), handle')"
    and "serialize_batch batch = Inr data'" and "message_id_new data' = message_id_new data"
    and "hm_has (gp_topics (nh_gossip handle)) topic_batches"
  shows "hm_has (gp_cache (nh_gossip handle')) (message_id_new data)
     \<and> gs_total_sent (gp_stats (nh_gossip handle')) = gs_total_sent (gp_stats (nh_gossip handle))
         + (if hm_has (gp_cache (nh_gossip handle)) (message_id_new data) then 0 else 1)
     \<and> broadcast_transaction message_id_new serialize_tx now' tx handle' = (Inr (), handle')
     \<and> broadcast_batch message_id_new serialize_batch now' batch handle' = (Inr (), handle')
     \<and> nh_peer_manager handle' = nh_peer_manager handle
     \<and> handle_mining_pool handle' = handle_mining_pool handle
     \<and> subscribed_topics (nh_gossip handle') = subscribed_topics (nh_gossip handle)"
proof -
  obtain g where run: "broadcast message_id_new now MT_Transaction data (nh_gossip handle) = (Inr (), g)"
    and handle': "handle' = handle\<lparr>nh_gossip := g\<rparr>"
    using assms(1,2) by (auto simp: broadcast_transaction_def split: prod.splits)
  have topics: "broadcast_topic MT_Transaction = Inr topic_transactions" "broadcast_topic MT_Batch = Inr topic_batches"
    by (simp_all add: broadcast_topic_def)
  note ok = broadcast_accepted [OF run topics(1)]
  have "broadcast message_id_new now' MT_Transaction data g = (Inr (), g)"
    using ok by (intro broadcast_cached [OF topics(1)]) simp_all
  moreover have "broadcast message_id_new now' MT_Batch data' g = (Inr (), g)"
    using ok assms(4,5) by (intro broadcast_cached [OF topics(2)]) simp_all
  ultimately show ?thesis
    using ok assms(1,3)
    by (simp add: handle' broadcast_transaction_def broadcast_batch_def handle_mining_pool_def subscribed_topics_def)
qed

definition demo_handle :: "(nat, string, string, bytes) network_handle" where
  "demo_handle = handle_new
     (snd (subscribe id 0 topic_batches (snd (subscribe id 0 topic_transactions gossip_new))))
     (peer_manager_new 5 50 (duration_from_secs 60))"

theorem handle_broadcast_idempotent_witness:
  "\<exists>handle'. broadcast_transaction id (\<lambda>n. Inr [n]) 1 7 demo_handle = (Inr (), handle')
     \<and> broadcast_batch id (\<lambda>n. Inr [n]) 9 7 handle' = (Inr (), handle')"
proof -
  obtain handle' where run: "broadcast_transaction id (\<lambda>n. Inr [n]) 1 7 demo_handle = (Inr (), handle')"
    by (simp add: broadcast_transaction_def broadcast_def broadcast_topic_def demo_handle_def handle_new_def
        subscribe_def gossip_new_def topic_batches_def topic_transactions_def Let_def)
  have "hm_has (gp_topics (nh_gossip demo_handle)) topic_batches"
    by (simp add: demo_handle_def handle_new_def subscribe_def gossip_new_def topic_batches_def topic_transactions_def)
  from handle_broadcast_idempotent [OF _ run _ _ this, where serialize_batch = "\<lambda>n. Inr [n]" and batch = 7
      and now' = 9] run
  show ?thesis by simp
qed

end
