(* ===== verification/Repository_Tests.thy ===== *)
theory Repository_Tests
  imports Error_Handling Mining_Pool
begin

text \<open>
  The repository's own tests (\<open>src/tests/error_handling_tests.rs\<close> and the test modules of
  \<open>src/src\<close>), evaluated on the model. They tie the definitions to what the authors of the code
  check: each lemma has the name of a test and its assertions (tests of the same assertions are
  stated once). Where the test reads the clock the lemma holds for every reading that the timing
  of the test allows; the rate limiter's assertions take all calls within one window.
\<close>

section \<open>Errors\<close>

definition test_context :: error_context where
  "test_context = error_context_new ''test_operation'' 0"

lemma test_error_context_creation:
  "let c = with_recovery ''retry'' (with_context ''failed'' (with_peer ''peer1'' (error_context_new ''op'' t)))
   in ec_operation c = ''op'' \<and> ec_peer_id c = Some ''peer1'' \<and> ec_context c = ''failed''
     \<and> ec_recovery_suggestion c = Some ''retry''
     \<and> error_context_display c = ''Operation: op, Context: failed, Peer: peer1, Recovery: retry''"
  by (simp add: error_context_new_def with_peer_def with_context_def with_recovery_def error_context_display_def)

lemma test_network_error_recovery_strategy:
  "is_recoverable (ConnectionTimeout ''test'')" "is_critical (InvalidConfiguration ''test'')"
  "recovery_strategy_of (ConnectionTimeout ''test'') = RS_ExponentialBackoff"
  "recovery_strategy_of (RateLimitExceeded ''peer1'') = RS_Throttle"
  by (simp_all add: error_class_defs)

lemma test_multiple_error_types:
  "map error_category_of
     [ConnectionFailed m, ConnectionTimeout m, ConnectionRefused m, ConnectionReset m, HandshakeFailed m,
      SerializationError m, DeserializationError m, MessageParsingFailed m, MalformedMessage m,
      RateLimitExceeded m, InvalidPeer m, PeerNotFound m, PeerDisconnected m, PeerUnhealthy m,
      MessageTooLarge 1000 100, InvalidMessageFormat m, OperationTimeout m, IoError m,
      ConfigurationError m, InvalidConfiguration m, TransportError m, NetworkPartition m,
      ResourceExhaustion m, CriticalError m, ShutdownInProgress m, OtherError m] =
   replicate 5 EC_Connection @ replicate 4 EC_Message @ [EC_RateLimit] @ replicate 4 EC_Peer
     @ [EC_Message, EC_Message, EC_Timeout, EC_Other, EC_Configuration, EC_Configuration, EC_Other,
        EC_Other, EC_Resource, EC_Critical, EC_Other, EC_Other]"
  by (simp add: error_category_of_def eval_nat_numeral)

section \<open>Logging\<close>

definition test_log :: "nat \<Rightarrow> nat \<Rightarrow> usize \<Rightarrow> error_logger" where
  "test_log timeouts too_large limit =
     fold log_step (replicate timeouts (ConnectionTimeout ''test'', test_context, True, None, 0)
                    @ replicate too_large (MessageTooLarge 1000 100, test_context, False, None, 0))
       (error_logger_new limit)"

lemma test_error_logger_history_limit: "length (el_history (test_log 10 0 5)) = 5"
  by (simp add: test_log_def log_step_def log_error_def Let_def error_logger_new_def eval_nat_numeral)

lemma test_error_logger_get_recent_errors: "length (get_recent_errors 5 (test_log 10 0 100)) = 5"
  by (simp add: test_log_def log_step_def log_error_def Let_def error_logger_new_def get_recent_errors_def
      eval_nat_numeral)

lemma test_error_logger_get_errors_by_category:
  "length (get_errors_by_category EC_Connection (test_log 1 1 100)) = 1"
  "length (get_errors_by_category EC_Message (test_log 1 1 100)) = 1"
  by (simp_all add: test_log_def log_step_def log_error_def Let_def error_logger_new_def
      get_errors_by_category_def log_entry_def error_category_of_def)

lemma test_error_logger_summary:
  "let s = get_summary (test_log 5 3 100)
   in es_total_errors s = 8 \<and> es_connection_errors s = 5 \<and> es_message_errors s = 3 \<and> es_recovered_errors s = 5"
  by (simp add: test_log_def log_step_def log_error_def Let_def error_logger_new_def eval_nat_numeral
      get_summary_def record_error_def record_recovered_def error_category_of_def error_metrics_default_def)

lemma test_recovery_rate:
  "recovery_rate (get_summary (test_log 5 3 100)) = 125 / 2"
proof -
  have summary: "es_total_errors (get_summary (test_log 5 3 100)) = 8"
    "es_recovered_errors (get_summary (test_log 5 3 100)) = 5"
    using test_error_logger_summary by (simp_all add: Let_def)
  have r: "rnd64 (5 / 8) = 5 / 8" and r': "rnd64 (125 / 2) = 125 / 2"
    using rnd64_dyadic [of 5 "-3"] rnd64_dyadic [of 125 "-1"] by (simp_all add: power_int_minus field_simps)
  have "f64_of_nat 5 / f64_of_nat 8 = 5 / 8"
    by (simp add: f64_of_nat_exact)
  then have "f64_mul (f64_div (f64_of_nat 5) (f64_of_nat 8)) 100 = rnd64 (5 / 8 * 100)"
    unfolding f64_div_def f64_mul_def by (simp only: r)
  also have "5 / 8 * 100 = (125 / 2 :: rat)" by simp
  finally have "f64_mul (f64_div (f64_of_nat 5) (f64_of_nat 8)) 100 = 125 / 2"
    by (simp only: r')
  then show ?thesis
    by (simp add: recovery_rate_def f64_of_u64_def summary)
qed

section \<open>Recovery\<close>

lemma test_exponential_backoff:
  "\<exists>d1 b1 d2 b2. next_backoff n1 t1 (backoff_new 1000 300000) = Some (d1, b1)
     \<and> 900 \<le> as_millis d1 \<and> as_millis d1 \<le> 1100 \<and> eb_attempt b1 = 1
     \<and> next_backoff n2 t2 b1 = Some (d2, b2)
     \<and> 1800 \<le> as_millis d2 \<and> as_millis d2 \<le> 2200 \<and> eb_attempt b2 = 2
     \<and> eb_attempt (backoff_reset b2) = 0"
proof -
  obtain d1 b1 where b1: "next_backoff n1 t1 (backoff_new 1000 300000) = Some (d1, b1)"
    by (rule standard_next_backoff [OF standard_backoff_new])
  then have s1: "standard_backoff b1" and a1: "eb_attempt b1 = 1"
    using next_backoff_Some [OF b1] by (simp_all add: standard_backoff_def backoff_new_def sat_add_def sat_of_nat_def)
  obtain d2 b2 where b2: "next_backoff n2 t2 b1 = Some (d2, b2)"
    by (rule standard_next_backoff [OF s1])
  have "unat (backoff_delay_ms (backoff_new 1000 300000)) = 1000" and "unat (backoff_delay_ms b1) = 2000"
    using s1 a1 by (simp_all add: unat_backoff_delay standard_backoff_def backoff_new_def)
  then have "950 \<le> as_millis d1 \<and> as_millis d1 < 1050" and "1900 \<le> as_millis d2 \<and> as_millis d2 < 2100"
    using next_backoff_delay [OF b1] next_backoff_delay [OF b2] by (simp_all add: unat_backoff_jitter)
  with b1 b2 a1 show ?thesis
    using next_backoff_Some(3) [OF b2] by (simp add: backoff_reset_def sat_add_def sat_of_nat_def)
qed

lemma test_rate_limiter:
  "\<exists>r. limiter_run (replicate 10 t) (fixed_window_new 10 (duration_from_secs 60) t) = (replicate 10 True, r)
     \<and> \<not> fst (allow_message t r) \<and> fst (allow_message t (fixed_window_reset t r))"
proof -
  let ?r = "fixed_window_new 10 (duration_from_secs 60) t"
  have "limiter_run (replicate 10 t) ?r = (replicate 10 True, ?r\<lparr>fw_message_count := 10\<rparr>)"
    using limiter_run_full_window [of "replicate 10 t" ?r] by (simp add: fixed_window_new_def)
  then show ?thesis
    by (simp add: allow_message_def fixed_window_new_def fixed_window_reset_def duration_simps Let_def)
qed

lemma replicate_5: "replicate 5 x = [x, x, x, x, x]"
  by (simp add: eval_nat_numeral)

lemma test_error_recovery_manager_ban_peer:
  "\<exists>as m. recovery_run (replicate 5 (n, t, ''peer1'', PeerDisconnected ''test'')) (recovery_manager_new 3) = Some (as, m)
     \<and> should_ban_peer ''peer1'' m \<and> get_error_count ''peer1'' m = 5
     \<and> get_error_count ''peer1'' (reset_error_count ''peer1'' m) = 0"
  by (simp add: replicate_5 recovery_handle_error_def recovery_strategy_of_def handle_reconnect_def
      recovery_manager_new_def hm_entry_def should_ban_peer_def get_error_count_def reset_error_count_def Let_def
      hm_simps sat_add_def sat_of_nat_def)

lemma test_error_recovery_manager:
  "\<exists>a m. recovery_handle_error n t ''peer1'' (ConnectionTimeout ''test'') (recovery_manager_new 5) = Some (Inr a, m)
     \<and> get_error_count ''peer1'' m = 0"
proof -
  obtain a m where "recovery_handle_error n t ''peer1'' (ConnectionTimeout ''test'') (recovery_manager_new 5) = Some (Inr a, m)"
    and "get_error_count ''peer1'' m =
           (if counts_error ''peer1'' ''peer1'' (ConnectionTimeout ''test'')
            then sat_add (get_error_count ''peer1'' (recovery_manager_new 5)) 1
            else get_error_count ''peer1'' (recovery_manager_new 5))"
    by (rule recovery_handle_error_total [OF manager_ok_new]) blast
  then show ?thesis
    by (simp add: counts_error_def recovery_strategy_of_def get_error_count_def recovery_manager_new_def hm_entry_def)
qed

lemma test_comprehensive_error_handler_critical_error:
  "\<exists>a calls h. handle_error clk (CriticalError ''test'') (with_peer ''peer1'' test_context)
      (error_handler_new (error_logger_new 100) (recovery_manager_new 5) False) = Some (Inr a, calls, h)
     \<and> es_critical_errors (get_error_summary h) = 1 \<and> es_total_errors (get_error_summary h) = 1"
  by (simp add: handle_error_def recovery_strategy_of_def handle_critical_error_def error_handler_new_def
      get_error_summary_def get_summary_def log_error_def error_logger_new_def record_error_def Let_def
      error_category_of_def error_metrics_default_def is_recoverable_def)

section \<open>The mining pool\<close>

lemma test_work_distribution:
  "let (work, _) = distribute_work now [1, 2, 3] 1000 0 mining_pool_new in wp_work_id work = 1 \<and> wp_target work = 1000"
  by (simp add: distribute_work_def mining_pool_new_def Let_def)

text \<open>The test of a submission expects \<open>len\<close> to answer while the entry is held.\<close>

lemma test_share_submission:
  "let (work, m) = distribute_work now [1, 2, 3] 1000 0 mining_pool_new;
       share = \<lparr>msh_work_id = wp_work_id work, msh_nonce = 12345, msh_miner_address = [1, 2, 3], msh_submitted_at = 0\<rparr>
   in \<exists>m'. submit_share (\<lambda>miners. Some (hm_size miners)) t t' share m = Some (True, m') \<and> active_miner_count m' = 1"
  by (simp add: distribute_work_def mining_pool_new_def Let_def submit_share_def active_miner_count_def)

lemma test_miner_account:
  "let a = record_invalid_share t (record_valid_share t (record_valid_share t (miner_account_new t [1, 2, 3])))
   in ma_total_shares a = 3 \<and> ma_valid_shares a = 2 \<and> ma_invalid_shares a = 1"
  by (simp add: miner_account_new_def record_valid_share_def record_invalid_share_def)

end
