(* ===== verification/Spec2Isabelle.thy ===== *)
theory Spec2Isabelle
  imports Prelude Float64 Behaviour Errors Error_Logging Error_Recovery Error_Handling Config Messages Wire
    Batching Compression Gossip Reputation Peers Security Security_Races Mining_Pool Peer_Discovery
    State_Sync Concurrent_Tasks Validator_Messages Validator_Network Validator_Tasks
    Validator_Listener Validator_Broadcast Network_Handle Repository_Tests
begin

text \<open>
  A model of the Rust crate \<open>silver-network\<close>, the peer-to-peer layer of a proof-of-work node, and
  the theorems that say what its parts guarantee.

  \<^bold>\<open>The program.\<close> The crate is a set of passive components. A node owns a \<open>NetworkHandle\<close>
  (\<open>src/lib.rs\<close>) with a gossip protocol, a peer manager and possibly a mining pool; beside it stand
  peer discovery, state synchronisation, the security module (rate limits and reputation), message
  compression and batching, and an error pipeline that classifies an error, asks a recovery manager
  what to do and logs it. \<open>src/validator_sync.rs\<close> holds a second, TCP-based network of validators
  with its own message format. Each component is a struct with methods; the caller reads clocks and
  sockets and passes what happened.

  \<^bold>\<open>How it is modelled.\<close> A struct is a \<open>record\<close>, an enum a \<open>datatype\<close>, a method a function that
  takes the state last and returns its result with the new state. \<open>Result\<close> is a sum with the error
  on the left; a panic is \<open>None\<close> where one can happen. Integers have the width of the source and
  wrap as in a release build; \<open>usize\<close> is \<open>nat\<close>, since no code path lets a size come near \<open>2^64\<close>.
  Durations and instants are natural numbers of nanoseconds, and \<open>duration_since\<close> saturates at 0. A
  hash map (also \<open>DashMap\<close>) is an association list whose keys are distinct: its order stands for
  the arbitrary iteration order. Clock readings, what a socket does, the outcome of a lock and the
  functions of other crates (\<open>bincode\<close>, \<open>Sha256\<close>, Snappy, identifiers of \<open>libp2p\<close>) are arguments.
  Logging macros have no effect on the state and are left out.

  \<^bold>\<open>The theories.\<close>
  \<^item> \<open>Prelude\<close>: machine integers with Rust's saturating operations, time, hash maps; the locale
    \<open>hash_store\<close> states the laws of a map and is interpreted on the association lists, and
    \<open>invariant_machine\<close> lifts an invariant from the steps of a component to its runs.
  \<^item> \<open>Float64\<close>: \<open>f64\<close> by correctly rounded rationals, with error and monotonicity bounds.
  \<^item> \<open>Errors\<close>, \<open>Error_Logging\<close>, \<open>Error_Recovery\<close>, \<open>Error_Handling\<close> (\<open>error*.rs\<close>): the classification;
    the logger, whose history is the most recent part of what was logged and whose counters are
    exact; backoff with jitter, the fixed-window limiter and the recovery manager; the pipeline.
  \<^item> \<open>Config\<close>, \<open>Messages\<close> (\<open>config.rs\<close>, \<open>message.rs\<close>): plain data. \<open>Behaviour\<close>
    (\<open>behaviour.rs\<close>): the construction of the combined \<open>libp2p\<close> behaviour.
  \<^item> \<open>Wire\<close>: 32-bit length fields in both byte orders, behind the locale \<open>length_codec\<close>.
  \<^item> \<open>Batching\<close>, \<open>Compression\<close> (\<open>compression.rs\<close>): the batcher as a faithful queue and the exact
    language of its parser; lossless compression and exact statistics.
  \<^item> \<open>Gossip\<close> (\<open>gossip.rs\<close>): subscriptions, the cache that delivers each message once, its bound and
    its eviction, broadcasts.
  \<^item> \<open>Reputation\<close>: the locale of a bounded score, shared by the next two.
  \<^item> \<open>Peers\<close>, \<open>Security\<close> (\<open>peer.rs\<close>, \<open>security.rs\<close>): the peer table and its invariant, bans and
    timeouts, \<open>add_peer\<close> under concurrency as a step relation; the sliding-window limiter against
    its specification, scores with decay, and the life of a ban. \<open>Security_Races\<close> splits bans and
    ban queries into their accesses and clock readings, lets new calls start at any time, and says
    exactly when a ban survives them.
  \<^item> \<open>Mining_Pool\<close> (\<open>mining_pool.rs\<close>): work packages and their identifiers, and share accounting
    (relative to an answer of \<open>DashMap::len\<close>, which the code asks for while it holds an entry).
  \<^item> \<open>Peer_Discovery\<close> (\<open>discovery.rs\<close>): pending queries and their results.
  \<^item> \<open>State_Sync\<close> (\<open>sync.rs\<close>): the synchronisation state machine; the locale \<open>retry_table\<close> is the
    contract of a table of requests that are renewed or given up, interpreted for both tables.
  \<^item> \<open>Validator_Messages\<close>, \<open>Validator_Network\<close> (\<open>validator_sync.rs\<close>): frames and envelopes; peers,
    connections, retries and broadcasts.
  \<^item> \<open>Concurrent_Tasks\<close>: interleavings of tasks that own different keys of a shared table; the locale
    \<open>task_events\<close> states that counters commute and proves that the order is irrelevant.
    \<open>Validator_Tasks\<close> lifts its steps to the manager; \<open>Validator_Listener\<close> and
    \<open>Validator_Broadcast\<close> interpret it for the accepted connections and for the parallel sends.
  \<^item> \<open>Network_Handle\<close> (\<open>lib.rs\<close>): the handle, composed of gossip, peers and pool.
  \<^item> \<open>Repository_Tests\<close>: the assertions of the repository's own tests of errors, logging, recovery
    and the mining pool, as lemmas on the model.

  \<^bold>\<open>What the theorems show.\<close> The numbered properties stand before their theorems as \<open>C1\<close> to \<open>C40\<close>,
  in the order of importance. They are invariants over arbitrary sequences of calls
  (\<open>State_Sync\<close>, \<open>Peers\<close>, \<open>Security\<close>, \<open>Validator_Network\<close>), refinements of an abstract
  specification (the batcher as a stream, the history as a tail, the sliding window as a count,
  concurrent tasks as sequential ones), round trips and exact languages (\<open>Batching\<close>, \<open>Compression\<close>,
  \<open>Validator_Messages\<close>), bounds (caches, retries, delays), liveness and termination (requests die
  out, the recovery manager never fails), error behaviour (when the backoff panics, when a
  broadcast fails) and the functional behaviour of the operations that decide something. Where the
  code falls short of its documentation the theorem states what it does.

  \<^bold>\<open>Bounds and fuel.\<close> No definition needs fuel: every loop is a recursion over the list it consumes,
  and the retry loop counts the attempts that are left. Hypotheses such as fewer than \<open>2^64\<close> calls
  are the ranges of the counters; frames and batches carry lengths below \<open>2^32\<close>, the width of their
  length fields.

  \<^bold>\<open>Not modelled.\<close> The inside of the \<open>libp2p\<close> protocols: their constructors and methods are
  arguments. Log macros inside an operation are left out. The semaphores of the validator
  network only delay tasks. \<open>NetworkEvent\<close> and the queue of pending messages are declared and never
  used. A \<open>Duration\<close> has no upper end: the panic of \<open>mul_f64\<close> beyond \<open>2^64\<close> seconds is excluded by a
  hypothesis where a backoff is doubled. \<open>validator_sync.rs\<close> is not declared as a module by \<open>lib.rs\<close>; it is modelled as it stands. Of
  concurrency, an operation on one entry of a map is atomic; interleavings are modelled where an
  operation consists of several such steps (\<open>add_peer\<close>, bans and ban queries, the connection tasks
  and the sends of a broadcast).
\<close>

end
